theory Spec2Isabelle
  imports Main "HOL-Library.Multiset" "HOL-Library.Word" "HOL-Library.Char_ord"
    "HOL-Library.List_Lexorder"
begin

section \<open>Go maps\<close>

text \<open>
  A Go map is a finite partial function. Indexing a key that is absent yields the zero
  value of the element type. A \<^verbatim>\<open>range\<close> over a map visits every entry once, in an
  order the language leaves unspecified and that may change from one loop to the next;
  the order the runtime picks is an explicit argument \<open>ks\<close> of \<open>go_range\<close>, and
  \<open>range_order ks m\<close> says that \<open>ks\<close> is such an order for the map \<open>m\<close>.
\<close>

definition go_range :: "'k list \<Rightarrow> ('k \<rightharpoonup> 'v) \<Rightarrow> ('k \<times> 'v) list" where
  "go_range ks m = List.map_filter (\<lambda>k. map_option (Pair k) (m k)) ks"

definition range_order :: "'k list \<Rightarrow> ('k \<rightharpoonup> 'v) \<Rightarrow> bool" where
  "range_order ks m \<longleftrightarrow> distinct ks \<and> set ks = dom m"

section \<open>checks/config.go: modes, settings and the configuration\<close>

text \<open>\<^verbatim>\<open>type Mode string\<close>, with the four predefined constants and \<^verbatim>\<open>AllModes\<close>.\<close>

type_synonym Mode = string

definition PreCommit :: Mode where
  "PreCommit = ''pre-commit''"

definition PrePush :: Mode where
  "PrePush = ''pre-push''"

definition ContinuousIntegration :: Mode where
  "ContinuousIntegration = ''continuous-integration''"

definition Lint :: Mode where
  "Lint = ''lint''"

definition AllModes :: "Mode list" where
  "AllModes = [PreCommit, PrePush, ContinuousIntegration, Lint]"

text \<open>
  \<^verbatim>\<open>type Checks map[string][]Check\<close>, \<^verbatim>\<open>type Settings struct\<close> and
  \<^verbatim>\<open>type Config struct\<close>. \<^verbatim>\<open>Check\<close> is an interface; the functions of this
  file only copy the values that implement it, so the model is polymorphic in \<open>'c\<close>.
\<close>

record 'c Settings =
  Checks :: "string \<rightharpoonup> 'c list"
  MaxDuration :: int

record 'c Config =
  MinVersion :: string
  Modes :: "Mode \<rightharpoonup> 'c Settings"
  IgnorePatterns :: "string list"

text \<open>
  \<^verbatim>\<open>c.Modes[mode]\<close>: the entry of the mode, or the zero \<^verbatim>\<open>Settings\<close> (a nil
  \<^verbatim>\<open>Checks\<close> map and \<^verbatim>\<open>MaxDuration\<close> 0) when the map has none.
\<close>

definition zero_Settings :: "'c Settings" where
  "zero_Settings = \<lparr>Checks = Map.empty, MaxDuration = 0\<rparr>"

definition Modes_index :: "'c Config \<Rightarrow> Mode \<Rightarrow> 'c Settings" where
  "Modes_index c mode = (case Modes c mode of None \<Rightarrow> zero_Settings | Some s \<Rightarrow> s)"

text \<open>
  \<^verbatim>\<open>func (c *Config) EnabledChecks(modes []Mode) ([]Check, int)\<close>. The outer loop runs
  over \<open>modes\<close> with the accumulators \<open>out\<close> and \<open>max\<close> (here \<open>mx\<close>); the inner loop
  ranges over the \<^verbatim>\<open>Checks\<close> map of the mode and appends every list of checks to
  \<open>out\<close>. The \<open>i\<close>-th execution of the inner \<^verbatim>\<open>range\<close> visits the keys in the order
  \<open>rt i\<close>.
\<close>

fun EnabledChecks_loop ::
  "(nat \<Rightarrow> string list) \<Rightarrow> 'c Config \<Rightarrow> Mode list \<Rightarrow> 'c list \<times> int \<Rightarrow> 'c list \<times> int" where
  "EnabledChecks_loop rt c [] (out, mx) = (out, mx)"
| "EnabledChecks_loop rt c (mode # modes) (out, mx) =
     (let out' = fold (\<lambda>(_, checks) out. out @ checks)
                   (go_range (rt 0) (Checks (Modes_index c mode))) out;
          mx' = (if MaxDuration (Modes_index c mode) > mx
                 then MaxDuration (Modes_index c mode) else mx)
      in EnabledChecks_loop (\<lambda>i. rt (Suc i)) c modes (out', mx'))"

definition EnabledChecks ::
  "(nat \<Rightarrow> string list) \<Rightarrow> 'c Config \<Rightarrow> Mode list \<Rightarrow> 'c list \<times> int" where
  "EnabledChecks rt c modes = EnabledChecks_loop rt c modes ([], 0)"

text \<open>\<open>orders_ok rt c modes\<close>: every inner \<^verbatim>\<open>range\<close> is given an order of its map.\<close>

fun orders_ok :: "(nat \<Rightarrow> string list) \<Rightarrow> 'c Config \<Rightarrow> Mode list \<Rightarrow> bool" where
  "orders_ok rt c [] = True"
| "orders_ok rt c (mode # modes) =
     (range_order (rt 0) (Checks (Modes_index c mode)) \<and> orders_ok (\<lambda>i. rt (Suc i)) c modes)"

text \<open>
  The sequence the loops build, written as a concatenation: mode by mode in the order
  requested, inside a mode check type by check type in the order of the \<^verbatim>\<open>range\<close>,
  inside a check type in the order of its list.
\<close>

fun checks_in_range_order :: "(nat \<Rightarrow> string list) \<Rightarrow> 'c Config \<Rightarrow> Mode list \<Rightarrow> 'c list" where
  "checks_in_range_order rt c [] = []"
| "checks_in_range_order rt c (mode # modes) =
     concat (map snd (go_range (rt 0) (Checks (Modes_index c mode))))
       @ checks_in_range_order (\<lambda>i. rt (Suc i)) c modes"

text \<open>
  All check instances declared under a mode, with their multiplicities: the sum over the
  check types of the mode of the instances in the list of the type.
\<close>

definition checks_of_mode :: "'c Config \<Rightarrow> Mode \<Rightarrow> 'c multiset" where
  "checks_of_mode c mode =
     (\<Sum>k\<in>dom (Checks (Modes_index c mode)). mset (the (Checks (Modes_index c mode) k)))"

subsection \<open>The default configuration\<close>

text \<open>
  Modelled from the spec: the struct types \<^verbatim>\<open>build\<close>, \<^verbatim>\<open>gofmt\<close>, \<^verbatim>\<open>test\<close>,
  \<^verbatim>\<open>goimports\<close>, \<^verbatim>\<open>Coverage\<close>, \<^verbatim>\<open>errcheck\<close>, \<^verbatim>\<open>golint\<close>, \<^verbatim>\<open>govet\<close> and
  \<^verbatim>\<open>definitions.CoverageSettings\<close> are declared in files of the package that are not
  among the sources. The spec lists them as the variants of a check, each owning its
  configuration fields; a constructor carries the fields that the literals of \<^verbatim>\<open>New\<close>
  set, in the order \<^verbatim>\<open>New\<close> writes them (\<^verbatim>\<open>ExtraArgs\<close>; \<^verbatim>\<open>UseCoveralls\<close>,
  \<^verbatim>\<open>Global\<close>, \<^verbatim>\<open>PerDirDefault\<close>, \<^verbatim>\<open>PerDir\<close>; \<^verbatim>\<open>Ignores\<close>; \<^verbatim>\<open>Blacklist\<close>).
  \<^verbatim>\<open>New\<close> stores pointers to freshly allocated structs; the model keeps the values
  pointed to.
\<close>

record CoverageSettings =
  MinCoverage :: int
  MaxCoverage :: int

datatype Check =
    build "string list"
  | gofmt
  | test "string list"
  | goimports
  | Coverage bool CoverageSettings CoverageSettings "(string \<times> CoverageSettings) list"
  | errcheck string
  | golint "string list"
  | govet "string list"

text \<open>\<^verbatim>\<open>func New(v string) *Config\<close>, literal by literal.\<close>

definition New :: "string \<Rightarrow> Check Config" where
  "New v = \<lparr>
     MinVersion = v,
     Modes = [
       PreCommit \<mapsto> \<lparr>
         Checks = [
           ''build'' \<mapsto> [build []],
           ''gofmt'' \<mapsto> [gofmt],
           ''test'' \<mapsto> [test [''-short'']]],
         MaxDuration = 5\<rparr>,
       PrePush \<mapsto> \<lparr>
         Checks = [
           ''goimports'' \<mapsto> [goimports],
           ''coverage'' \<mapsto> [Coverage False
              \<lparr>MinCoverage = 50, MaxCoverage = 100\<rparr>
              \<lparr>MinCoverage = 0, MaxCoverage = 0\<rparr> []],
           ''test'' \<mapsto> [test [''-v'', ''-race'']]],
         MaxDuration = 15\<rparr>,
       ContinuousIntegration \<mapsto> \<lparr>
         Checks = [
           ''build'' \<mapsto> [build []],
           ''gofmt'' \<mapsto> [gofmt],
           ''goimports'' \<mapsto> [goimports],
           ''coverage'' \<mapsto> [Coverage True
              \<lparr>MinCoverage = 50, MaxCoverage = 100\<rparr>
              \<lparr>MinCoverage = 0, MaxCoverage = 0\<rparr> []],
           ''test'' \<mapsto> [test [''-v'', ''-race'']]],
         MaxDuration = 120\<rparr>,
       Lint \<mapsto> \<lparr>
         Checks = [
           ''errcheck'' \<mapsto> [errcheck ''Close''],
           ''golint'' \<mapsto> [golint []],
           ''govet'' \<mapsto> [govet ['' composite literal uses unkeyed fields'']]],
         MaxDuration = 15\<rparr>],
     IgnorePatterns = [''.*'', ''_*'', ''*.pb.go'']\<rparr>"

text \<open>
  A configuration as \<^verbatim>\<open>yaml\<close> can decode it from \<^verbatim>\<open>max_duration: -1\<close> under
  \<^verbatim>\<open>pre-commit\<close>: \<^verbatim>\<open>MaxDuration\<close> is an \<^verbatim>\<open>int\<close> and nothing rejects a negative one.
\<close>

definition negative_budget :: "Check Config" where
  "negative_budget = \<lparr>
     MinVersion = ''0.4'',
     Modes = [PreCommit \<mapsto> \<lparr>Checks = [''gofmt'' \<mapsto> [gofmt]], MaxDuration = - 1\<rparr>],
     IgnorePatterns = []\<rparr>"

section \<open>Durations and errors\<close>

text \<open>
  \<^verbatim>\<open>time.Duration\<close> is an \<^verbatim>\<open>int64\<close> count of nanoseconds; its arithmetic wraps
  around and its comparisons are signed. \<^verbatim>\<open>time.Second\<close> is 1000000000.
\<close>

type_synonym Duration = "64 word"

definition Second :: Duration where
  "Second = 1000000000"

text \<open>
  A Go \<^verbatim>\<open>error\<close>. \<open>Errorf\<close> is the error \<^verbatim>\<open>fmt.Errorf\<close> builds, with its text;
  \<open>External\<close> is an error handed over by code outside these files (the \<^verbatim>\<open>yaml\<close>
  library, the callback \<^verbatim>\<open>unmarshal\<close>, a check that ran, a command that was started).
  Two errors of the command are built from a duration printed in seconds with the format
  \<^verbatim>\<open>%1.2f\<close>; they keep the duration instead of the text:
  \<open>CheckTook name d\<close> is \<^verbatim>\<open>fmt.Errorf("check %s took %1.2fs", name, d.Seconds())\<close> and
  \<open>ChecksFailed d\<close> is \<^verbatim>\<open>fmt.Errorf("checks failed in %1.2fs", d.Seconds())\<close>.
  \<open>quoted s\<close> is what the format \<^verbatim>\<open>\"%s\"\<close> prints for the string \<open>s\<close>.
\<close>

datatype error =
    Errorf string
  | External string
  | CheckTook string Duration
  | ChecksFailed Duration

definition quoted :: "string \<Rightarrow> string" where
  "quoted s = [CHR 0x22] @ s @ [CHR 0x22]"

section \<open>checks/config.go: decoding\<close>

text \<open>
  \<^verbatim>\<open>func (m *Mode) UnmarshalYAML(unmarshal func(interface{}) error) error\<close>. The callback
  \<^verbatim>\<open>unmarshal(&s)\<close> either fails or stores a string in \<open>s\<close>: its outcome is the
  argument \<open>unmarshal\<close>. The receiver \<open>*m\<close> is passed in and returned with the error
  (\<open>None\<close> is \<^verbatim>\<open>nil\<close>). \<open>UnmarshalYAML_known\<close> is the loop over \<^verbatim>\<open>AllModes\<close> with
  the \<^verbatim>\<open>return\<close> that follows it.
\<close>

fun UnmarshalYAML_known :: "Mode list \<Rightarrow> Mode \<Rightarrow> Mode \<Rightarrow> error option \<times> Mode" where
  "UnmarshalYAML_known [] val m = (Some (Errorf (''invalid mode '' @ quoted val)), m)"
| "UnmarshalYAML_known (known # rest) val m =
     (if val = known then (None, val) else UnmarshalYAML_known rest val m)"

definition Mode_UnmarshalYAML :: "error + string \<Rightarrow> Mode \<Rightarrow> error option \<times> Mode" where
  "Mode_UnmarshalYAML unmarshal m =
     (case unmarshal of
        Inl err \<Rightarrow> (Some err, m)
      | Inr s \<Rightarrow> UnmarshalYAML_known AllModes s m)"

text \<open>
  \<^verbatim>\<open>func (c *Checks) UnmarshalYAML(unmarshal func(interface{}) error) error\<close>. Outside
  the function are: the outcome of \<^verbatim>\<open>unmarshal(&encoded)\<close>, an error or the map
  \<open>encoded\<close> from check type names to lists of raw blocks; \<^verbatim>\<open>yaml.Marshal\<close> and
  \<^verbatim>\<open>yaml.Unmarshal\<close>, the second of which fills the check it is given or fails; the
  registry \<^verbatim>\<open>KnownChecks\<close>, a map from names to factories, declared in a file that is
  not among the sources; and the order \<open>ks\<close> in which the runtime ranges over
  \<open>encoded\<close>. They are arguments. The receiver \<open>*c\<close> is passed in and returned with the
  error: it is untouched when \<^verbatim>\<open>unmarshal\<close> fails, and holds what was decoded so far
  when a later step fails. \<open>Checks_index c name\<close> is \<^verbatim>\<open>(*c)[name]\<close>, nil for an absent
  key. \<open>UnmarshalYAML_blocks\<close> is the inner loop over the blocks of one check type,
  \<open>UnmarshalYAML_types\<close> the outer loop over the entries of \<open>encoded\<close>.
\<close>

definition Checks_index :: "(string \<rightharpoonup> 'c list) \<Rightarrow> string \<Rightarrow> 'c list" where
  "Checks_index c name = (case c name of None \<Rightarrow> [] | Some checks \<Rightarrow> checks)"

fun UnmarshalYAML_blocks ::
  "('raw \<Rightarrow> error + 'b) \<Rightarrow> ('b \<Rightarrow> 'c \<Rightarrow> error + 'c) \<Rightarrow> (unit \<Rightarrow> 'c) \<Rightarrow> string \<Rightarrow> 'raw list
   \<Rightarrow> (string \<rightharpoonup> 'c list) \<Rightarrow> error option \<times> (string \<rightharpoonup> 'c list)" where
  "UnmarshalYAML_blocks Marshal Unmarshal checkFactory checkTypeName [] c = (None, c)"
| "UnmarshalYAML_blocks Marshal Unmarshal checkFactory checkTypeName (checkData # checks) c =
     (case Marshal checkData of
        Inl err \<Rightarrow> (Some err, c)
      | Inr rawCheckData \<Rightarrow>
          (case Unmarshal rawCheckData (checkFactory ()) of
             Inl err \<Rightarrow> (Some err, c)
           | Inr check \<Rightarrow>
               UnmarshalYAML_blocks Marshal Unmarshal checkFactory checkTypeName checks
                 (c(checkTypeName \<mapsto> Checks_index c checkTypeName @ [check]))))"

fun UnmarshalYAML_types ::
  "('raw \<Rightarrow> error + 'b) \<Rightarrow> ('b \<Rightarrow> 'c \<Rightarrow> error + 'c) \<Rightarrow> (string \<rightharpoonup> (unit \<Rightarrow> 'c))
   \<Rightarrow> (string \<times> 'raw list) list
   \<Rightarrow> (string \<rightharpoonup> 'c list) \<Rightarrow> error option \<times> (string \<rightharpoonup> 'c list)" where
  "UnmarshalYAML_types Marshal Unmarshal KnownChecks [] c = (None, c)"
| "UnmarshalYAML_types Marshal Unmarshal KnownChecks ((checkTypeName, checks) # encoded) c =
     (case KnownChecks checkTypeName of
        None \<Rightarrow> (Some (Errorf (''unknown check '' @ quoted checkTypeName)), c)
      | Some checkFactory \<Rightarrow>
          (case UnmarshalYAML_blocks Marshal Unmarshal checkFactory checkTypeName checks c of
             (Some err, c') \<Rightarrow> (Some err, c')
           | (None, c') \<Rightarrow> UnmarshalYAML_types Marshal Unmarshal KnownChecks encoded c'))"

definition Checks_UnmarshalYAML ::
  "string list \<Rightarrow> ('raw \<Rightarrow> error + 'b) \<Rightarrow> ('b \<Rightarrow> 'c \<Rightarrow> error + 'c)
   \<Rightarrow> (string \<rightharpoonup> (unit \<Rightarrow> 'c)) \<Rightarrow> error + (string \<rightharpoonup> 'raw list)
   \<Rightarrow> (string \<rightharpoonup> 'c list) \<Rightarrow> error option \<times> (string \<rightharpoonup> 'c list)" where
  "Checks_UnmarshalYAML ks Marshal Unmarshal KnownChecks unmarshal c =
     (case unmarshal of
        Inl err \<Rightarrow> (Some err, c)
      | Inr encoded \<Rightarrow>
          UnmarshalYAML_types Marshal Unmarshal KnownChecks (go_range ks encoded) Map.empty)"

text \<open>
  \<open>decoded Marshal Unmarshal checkFactory checkData check\<close>: \<open>check\<close> is what one
  round of the inner loop appends for the block \<open>checkData\<close>, an instance made by the
  factory and then filled from the block.
\<close>

definition decoded ::
  "('raw \<Rightarrow> error + 'b) \<Rightarrow> ('b \<Rightarrow> 'c \<Rightarrow> error + 'c) \<Rightarrow> (unit \<Rightarrow> 'c) \<Rightarrow> 'raw \<Rightarrow> 'c \<Rightarrow> bool" where
  "decoded Marshal Unmarshal checkFactory checkData check \<longleftrightarrow>
     (\<exists>rawCheckData. Marshal checkData = Inr rawCheckData \<and>
        Unmarshal rawCheckData (checkFactory ()) = Inr check)"

text \<open>
  \<open>rejected Marshal Unmarshal checkFactory checkData err\<close>: one round of the inner loop
  returns \<open>err\<close> for the block \<open>checkData\<close>, from \<^verbatim>\<open>yaml.Marshal\<close> or from
  \<^verbatim>\<open>yaml.Unmarshal\<close> on a fresh instance of the factory.
\<close>

definition rejected ::
  "('raw \<Rightarrow> error + 'b) \<Rightarrow> ('b \<Rightarrow> 'c \<Rightarrow> error + 'c) \<Rightarrow> (unit \<Rightarrow> 'c) \<Rightarrow> 'raw \<Rightarrow> error \<Rightarrow> bool" where
  "rejected Marshal Unmarshal checkFactory checkData err \<longleftrightarrow>
     Marshal checkData = Inl err \<or>
     (\<exists>rawCheckData. Marshal checkData = Inr rawCheckData \<and>
        Unmarshal rawCheckData (checkFactory ()) = Inl err)"

text \<open>
  A \<^verbatim>\<open>yaml.Unmarshal\<close> that rejects one block (a scalar where \<^verbatim>\<open>extra_args\<close> wants
  a list) and a registry with two check types, to run the decoder on.
\<close>

definition example_Unmarshal :: "string \<Rightarrow> Check \<Rightarrow> error + Check" where
  "example_Unmarshal rawCheckData check =
     (if rawCheckData = ''extra_args: 5'' then Inl (External ''yaml: unmarshal errors'')
      else Inr check)"

definition example_KnownChecks :: "string \<rightharpoonup> (unit \<Rightarrow> Check)" where
  "example_KnownChecks = [''build'' \<mapsto> (\<lambda>_. build []), ''gofmt'' \<mapsto> (\<lambda>_. gofmt)]"

section \<open>The command: goroutines, the WaitGroup and the buffered channel\<close>

text \<open>
  \<^verbatim>\<open>run\<close> and \<^verbatim>\<open>installPrereq\<close> follow one pattern: make a buffered channel of a fixed
  capacity, start one goroutine per task, each of which may send on the channel and ends
  with the deferred \<^verbatim>\<open>wg.Done()\<close>, call \<^verbatim>\<open>wg.Wait()\<close>, and only then receive from the
  channel. Nothing receives while the goroutines run.

  A goroutine is reduced to the values it has still to send; it has ended when none is
  left. A state is the content of the buffer of the channel with the list of the
  goroutines. The only step is a send by one of the goroutines, which Go allows while the
  buffer holds fewer values than the capacity \<open>n\<close>: a send on a full channel blocks until
  a value is received. \<open>Wait_returns n gs buf\<close>: some interleaving of the sends lets
  every goroutine of \<open>gs\<close> end, so that \<^verbatim>\<open>wg.Wait()\<close> returns, and the buffer then
  holds \<open>buf\<close>.
\<close>

inductive chan_step :: "nat \<Rightarrow> 'a list \<times> 'a list list \<Rightarrow> 'a list \<times> 'a list list \<Rightarrow> bool"
  for n :: nat where
  send: "i < length gs \<Longrightarrow> gs ! i = v # rest \<Longrightarrow> length buf < n \<Longrightarrow>
         chan_step n (buf, gs) (buf @ [v], gs[i := rest])"

definition Wait_returns :: "nat \<Rightarrow> 'a list list \<Rightarrow> 'a list \<Rightarrow> bool" where
  "Wait_returns n gs buf \<longleftrightarrow>
     (\<exists>gs'. (chan_step n)\<^sup>*\<^sup>* ([], gs) (buf, gs') \<and> concat gs' = [])"

subsection \<open>run\<close>

text \<open>
  \<^verbatim>\<open>func run(config *checks.Config, r checks.RunLevel) error\<close> with \<^verbatim>\<open>callRun\<close>.
  \<^verbatim>\<open>config.EnabledChecks(r)\<close> and \<^verbatim>\<open>config.MaxDuration\<close> belong to a version of the
  package \<^verbatim>\<open>checks\<close> that is not among the sources: the list \<open>enabledChecks\<close> and the
  maximal duration \<open>mx\<close>, an \<^verbatim>\<open>int\<close> of seconds as in \<^verbatim>\<open>Settings\<close>, are arguments.
  So are the name of a check (\<open>GetName\<close>), the error or nil that its \<^verbatim>\<open>Run\<close> returns
  (\<open>Run\<close>), the time that passes between the two readings of the clock in
  \<^verbatim>\<open>callRun\<close> (\<open>took\<close>), and the duration \<open>elapsed\<close> that
  \<^verbatim>\<open>time.Now().Sub(start)\<close> measures before \<^verbatim>\<open>run\<close> returns.

  \<^verbatim>\<open>callRun\<close> locks the check when it is a \<^verbatim>\<open>sync.Locker\<close>, reads the clock, calls
  \<^verbatim>\<open>check.Run()\<close> and reads the clock again: the duration it returns with the error is
  the time of the call of \<^verbatim>\<open>Run\<close> alone, for that check alone.

  \<open>run_goroutine\<close> gives the values the goroutine of a check sends on \<^verbatim>\<open>errs\<close>: the
  error of the check when it is not nil, then the error that the check took too long
  when \<^verbatim>\<open>duration > time.Duration(max)*time.Second\<close>. The channel is made with the
  capacity \<^verbatim>\<open>len(enabledChecks)\<close>. \<open>run_drain\<close> is the last loop: it receives what the
  channel holds into \<open>err\<close> and, when the channel is empty, returns the error with the
  elapsed time if \<open>err\<close> is not nil, and nil otherwise. \<open>run_returns \<dots> res\<close>:
  \<^verbatim>\<open>run\<close> returns \<open>res\<close>.
\<close>

definition callRun ::
  "('c \<Rightarrow> error option) \<Rightarrow> ('c \<Rightarrow> Duration) \<Rightarrow> 'c \<Rightarrow> error option \<times> Duration" where
  "callRun Run took check = (let err = Run check in (err, took check))"

definition run_goroutine ::
  "('c \<Rightarrow> string) \<Rightarrow> ('c \<Rightarrow> error option) \<Rightarrow> ('c \<Rightarrow> Duration) \<Rightarrow> int \<Rightarrow> 'c
   \<Rightarrow> error list" where
  "run_goroutine GetName Run took mx check =
     (case callRun Run took check of (err, duration) \<Rightarrow>
        (case err of None \<Rightarrow> [] | Some e \<Rightarrow> [e]) @
        (if word_of_int mx * Second <s duration
         then [CheckTook (GetName check) duration] else []))"

fun run_drain :: "error list \<Rightarrow> error option \<Rightarrow> Duration \<Rightarrow> error option" where
  "run_drain (e # errs) err elapsed = run_drain errs (Some e) elapsed"
| "run_drain [] err elapsed =
     (case err of Some e \<Rightarrow> Some (ChecksFailed elapsed) | None \<Rightarrow> None)"

definition run_returns ::
  "('c \<Rightarrow> string) \<Rightarrow> ('c \<Rightarrow> error option) \<Rightarrow> ('c \<Rightarrow> Duration) \<Rightarrow> 'c list \<Rightarrow> int
   \<Rightarrow> Duration \<Rightarrow> error option \<Rightarrow> bool" where
  "run_returns GetName Run took enabledChecks mx elapsed res \<longleftrightarrow>
     (\<exists>errs. Wait_returns (length enabledChecks)
               (map (run_goroutine GetName Run took mx) enabledChecks) errs \<and>
             res = run_drain errs None elapsed)"

subsection \<open>installPrereq\<close>

text \<open>
  \<^verbatim>\<open>type CheckPrerequisite struct\<close> and \<^verbatim>\<open>func (c *CheckPrerequisite) IsPresent() bool\<close>
  of the package \<^verbatim>\<open>definitions\<close>. \<^verbatim>\<open>internal.Capture\<close> and the \<^verbatim>\<open>capture\<close> of the
  command run a command line and return its output, its exit code and an error; they
  are not among the sources and are arguments (\<open>Capture\<close>, \<open>capture\<close>), functions of
  the command line. The error is kept as its text, \<open>None\<close> for nil.
\<close>

type_synonym captured = "string \<times> int \<times> string option"

record CheckPrerequisite =
  HelpCommand :: "string list"
  ExpectedExitCode :: int
  URL :: string

definition IsPresent :: "(string list \<Rightarrow> captured) \<Rightarrow> CheckPrerequisite \<Rightarrow> bool" where
  "IsPresent Capture c =
     (case Capture (HelpCommand c) of (_, exitCode, _) \<Rightarrow> exitCode = ExpectedExitCode c)"

text \<open>
  \<^verbatim>\<open>func installPrereq(config *checks.Config, r checks.RunLevel) error\<close>. The enabled
  checks are an argument, as for \<^verbatim>\<open>run\<close>, with the prerequisites every check declares
  (\<open>GetPrerequisites\<close>). There is one goroutine for every prerequisite of every enabled
  check; it sends the \<^verbatim>\<open>URL\<close> of the prerequisite when \<^verbatim>\<open>IsPresent\<close> is false. The
  channel is made with the capacity \<^verbatim>\<open>len(enabledChecks)\<close>.

  \<open>installPrereq_urls ks c\<close>: the values \<open>c\<close> received from the channel are stored as
  the keys of the map \<open>m\<close>, the keys are collected in the order \<open>ks\<close> of the
  \<^verbatim>\<open>range\<close> over \<open>m\<close> and sorted by \<^verbatim>\<open>sort.Strings\<close>. \<open>installPrereq_get capture urls\<close>
  is the rest of the function: the command lines it hands to \<open>capture\<close>, in order,
  and the error it returns. \<open>installPrereq_returns \<dots> res\<close>: \<^verbatim>\<open>installPrereq\<close>
  returns, having run the command lines \<open>fst res\<close>, the error \<open>snd res\<close>.
\<close>

definition installPrereq_goroutine ::
  "(string list \<Rightarrow> captured) \<Rightarrow> CheckPrerequisite \<Rightarrow> string list" where
  "installPrereq_goroutine Capture prereq =
     (if \<not> IsPresent Capture prereq then [URL prereq] else [])"

definition installPrereq_goroutines ::
  "(string list \<Rightarrow> captured) \<Rightarrow> ('c \<Rightarrow> CheckPrerequisite list) \<Rightarrow> 'c list \<Rightarrow> string list list" where
  "installPrereq_goroutines Capture GetPrerequisites enabledChecks =
     concat (map (\<lambda>check. map (installPrereq_goroutine Capture) (GetPrerequisites check))
       enabledChecks)"

definition installPrereq_urls :: "string list \<Rightarrow> string list \<Rightarrow> string list" where
  "installPrereq_urls ks c =
     (let m = fold (\<lambda>url m. m(url \<mapsto> True)) c Map.empty;
          urls = map fst (go_range ks m)
      in sort urls)"

definition installPrereq_get ::
  "(string list \<Rightarrow> captured) \<Rightarrow> string list \<Rightarrow> string list list \<times> error option" where
  "installPrereq_get capture urls =
     (if length urls \<noteq> 0 then
        (case capture ([''go'', ''get''] @ urls) of (out, _, err) \<Rightarrow>
           if length out \<noteq> 0 \<or> err \<noteq> None then
             (case capture ([''go'', ''get'', ''-u''] @ urls) of (out, _, err) \<Rightarrow>
                ([[''go'', ''get''] @ urls, [''go'', ''get'', ''-u''] @ urls],
                 if length out \<noteq> 0
                 then Some (Errorf (''prerequisites installation failed: '' @ out))
                 else (case err of
                         Some e \<Rightarrow> Some (Errorf (''prerequisites installation failed: '' @ e))
                       | None \<Rightarrow> None)))
           else
             ([[''go'', ''get''] @ urls],
              if length out \<noteq> 0
              then Some (Errorf (''prerequisites installation failed: '' @ out))
              else (case err of
                      Some e \<Rightarrow> Some (Errorf (''prerequisites installation failed: '' @ e))
                    | None \<Rightarrow> None)))
      else ([], None))"

definition installPrereq_returns ::
  "(string list \<Rightarrow> captured) \<Rightarrow> (string list \<Rightarrow> captured) \<Rightarrow> ('c \<Rightarrow> CheckPrerequisite list)
   \<Rightarrow> string list \<Rightarrow> 'c list \<Rightarrow> string list list \<times> error option \<Rightarrow> bool" where
  "installPrereq_returns Capture capture GetPrerequisites ks enabledChecks res \<longleftrightarrow>
     (\<exists>c. Wait_returns (length enabledChecks)
            (installPrereq_goroutines Capture GetPrerequisites enabledChecks) c \<and>
          res = installPrereq_get capture (installPrereq_urls ks c))"

text \<open>
  A \<open>capture\<close> to run the installation on: \<^verbatim>\<open>go get golint\<close> prints a message,
  \<^verbatim>\<open>go get errcheck\<close> fails without output and its upgrade prints a message, every
  other command line succeeds silently.
\<close>

definition example_capture :: "string list \<Rightarrow> captured" where
  "example_capture cmd =
     (if cmd = [''go'', ''get'', ''golint''] then (''unrecognized import path'', 1, None)
      else if cmd = [''go'', ''get'', ''errcheck''] then ([], 1, Some ''exit status 1'')
      else if cmd = [''go'', ''get'', ''-u'', ''errcheck''] then (''cannot find package'', 1, None)
      else ([], 0, None))"

text \<open>
  A \<open>capture\<close> for which every command exits with code 1, prints nothing and returns a
  nil error.
\<close>

definition silent_failure :: "string list \<Rightarrow> captured" where
  "silent_failure cmd = ([], 1, None)"

section \<open>Properties of EnabledChecks\<close>

lemma fold_append_checks:
  "fold (\<lambda>(_, checks) out. out @ checks) es out = out @ concat (map snd es)"
  by (induction es arbitrary: out) auto

lemma EnabledChecks_loop_eq:
  "EnabledChecks_loop rt c modes (out, mx) =
     (out @ checks_in_range_order rt c modes,
      fold max (map (\<lambda>mode. MaxDuration (Modes_index c mode)) modes) mx)"
proof (induction modes arbitrary: rt out mx)
  case Nil
  show ?case by simp
next
  case (Cons mode modes)
  have m: "(if MaxDuration (Modes_index c mode) > mx
            then MaxDuration (Modes_index c mode) else mx)
           = max (MaxDuration (Modes_index c mode)) mx"
    by (simp add: max_def)
  show ?case
    by (simp add: Let_def fold_append_checks Cons.IH m del: max.absorb1 max.absorb2
        max.absorb3 max.absorb4)
qed

lemma fold_max_Max:
  "fold max xs (m::int) = Max (insert m (set xs))"
proof (induction xs arbitrary: m)
  case Nil
  show ?case by simp
next
  case (Cons x xs)
  have "Max (insert (max x m) (set xs)) = Max (insert m (insert x (set xs)))"
    by (cases "set xs = {}") (simp_all add: max.commute max.left_commute)
  with Cons show ?case by simp
qed

lemma go_range_empty [simp]: "go_range ks Map.empty = []"
  by (simp add: go_range_def List.map_filter_def)

lemma Modes_index_None: "Modes c mode = None \<Longrightarrow> Modes_index c mode = zero_Settings"
  by (simp add: Modes_index_def)

lemma checks_in_range_order_no_entry:
  "\<forall>mode\<in>set modes. Modes c mode = None \<Longrightarrow> checks_in_range_order rt c modes = []"
  by (induction modes arbitrary: rt) (simp_all add: Modes_index_None zero_Settings_def)

lemma budgets_no_entry:
  "\<forall>mode\<in>set modes. Modes c mode = None \<Longrightarrow>
   fold max (map (\<lambda>mode. MaxDuration (Modes_index c mode)) modes) (0::int) = 0"
  by (induction modes) (simp_all add: Modes_index_None zero_Settings_def)

lemma go_range_snd:
  "set ks \<subseteq> dom m \<Longrightarrow> map snd (go_range ks m) = map (\<lambda>k. the (m k)) ks"
  by (induction ks) (auto simp: go_range_def List.map_filter_def)

lemma go_range_mset:
  assumes "range_order ks m"
  shows "mset (concat (map snd (go_range ks m))) = (\<Sum>k\<in>dom m. mset (the (m k)))"
proof -
  from assms have d: "distinct ks" and s: "set ks = dom m"
    by (simp_all add: range_order_def)
  have "mset (concat (map snd (go_range ks m))) = (\<Sum>k\<leftarrow>ks. mset (the (m k)))"
    using s by (simp add: go_range_snd mset_concat comp_def)
  also have "\<dots> = (\<Sum>k\<in>set ks. mset (the (m k)))"
    using d by (rule sum_list_distinct_conv_sum_set)
  finally show ?thesis by (simp add: s)
qed

lemma checks_in_range_order_mset:
  "orders_ok rt c modes \<Longrightarrow>
   mset (checks_in_range_order rt c modes) = (\<Sum>mode\<leftarrow>modes. checks_of_mode c mode)"
  by (induction modes arbitrary: rt) (simp_all add: go_range_mset checks_of_mode_def)

lemma Max_insert_0:
  assumes "x \<in> set xs" "(0::int) \<le> x"
  shows "Max (insert 0 (set xs)) = Max (set xs)"
proof -
  have ne: "set xs \<noteq> {}" using assms by auto
  have "x \<le> Max (set xs)" using assms by simp
  then have "0 \<le> Max (set xs)" using assms by linarith
  then show ?thesis using ne by (simp add: max_def)
qed

lemma two_le_sum_list:
  fixes xs :: "int list"
  assumes "\<forall>x\<in>set xs. 0 \<le> x" "i < length xs" "j < length xs" "i \<noteq> j"
  shows "xs ! i + xs ! j \<le> sum_list xs"
proof -
  have "xs ! i + xs ! j = (\<Sum>k\<in>{i, j}. xs ! k)"
    using assms(4) by simp
  also have "\<dots> \<le> (\<Sum>k\<in>{0..<length xs}. xs ! k)"
    using assms by (intro sum_mono2) auto
  also have "\<dots> = sum_list xs"
    by (simp add: sum_list_sum_nth)
  finally show ?thesis .
qed

lemma Max_less_sum_list:
  fixes xs :: "int list"
  assumes nn: "\<forall>x\<in>set xs. 0 \<le> x"
    and i: "i < length xs" and j: "j < length xs" and ij: "i \<noteq> j"
    and pi: "0 < xs ! i" and pj: "0 < xs ! j"
  shows "Max (insert 0 (set xs)) < sum_list xs"
proof -
  have "Max (insert 0 (set xs)) \<in> insert 0 (set xs)"
    by (rule Max_in) simp_all
  then consider "Max (insert 0 (set xs)) = 0" | k where "k < length xs" "Max (insert 0 (set xs)) = xs ! k"
    by (auto simp: in_set_conv_nth)
  then show ?thesis
  proof cases
    case 1
    from two_le_sum_list [OF nn i j ij] pi pj show ?thesis unfolding 1 by linarith
  next
    case (2 k)
    show ?thesis
    proof (cases "k = i")
      case True
      from two_le_sum_list [OF nn i j ij] pj show ?thesis unfolding 2 True by linarith
    next
      case False
      from two_le_sum_list [OF nn 2(1) i False] pi show ?thesis unfolding 2 by linarith
    qed
  qed
qed


lemmas mode_defs = PreCommit_def PrePush_def ContinuousIntegration_def Lint_def

lemma New_PreCommit:
  "Modes_index (New v) PreCommit = \<lparr>
         Checks = [
           ''build'' \<mapsto> [build []],
           ''gofmt'' \<mapsto> [gofmt],
           ''test'' \<mapsto> [test [''-short'']]],
         MaxDuration = 5\<rparr>"
  by (simp add: New_def Modes_index_def mode_defs)

lemma New_PrePush:
  "Modes_index (New v) PrePush = \<lparr>
         Checks = [
           ''goimports'' \<mapsto> [goimports],
           ''coverage'' \<mapsto> [Coverage False
              \<lparr>MinCoverage = 50, MaxCoverage = 100\<rparr>
              \<lparr>MinCoverage = 0, MaxCoverage = 0\<rparr> []],
           ''test'' \<mapsto> [test [''-v'', ''-race'']]],
         MaxDuration = 15\<rparr>"
  by (simp add: New_def Modes_index_def mode_defs)

lemma New_ContinuousIntegration:
  "Modes_index (New v) ContinuousIntegration = \<lparr>
         Checks = [
           ''build'' \<mapsto> [build []],
           ''gofmt'' \<mapsto> [gofmt],
           ''goimports'' \<mapsto> [goimports],
           ''coverage'' \<mapsto> [Coverage True
              \<lparr>MinCoverage = 50, MaxCoverage = 100\<rparr>
              \<lparr>MinCoverage = 0, MaxCoverage = 0\<rparr> []],
           ''test'' \<mapsto> [test [''-v'', ''-race'']]],
         MaxDuration = 120\<rparr>"
  by (simp add: New_def Modes_index_def mode_defs)

lemma New_Lint:
  "Modes_index (New v) Lint = \<lparr>
         Checks = [
           ''errcheck'' \<mapsto> [errcheck ''Close''],
           ''golint'' \<mapsto> [golint []],
           ''govet'' \<mapsto> [govet ['' composite literal uses unkeyed fields'']]],
         MaxDuration = 15\<rparr>"
  by (simp add: New_def Modes_index_def mode_defs)

lemma New_Modes_None:
  "mode \<notin> set AllModes \<Longrightarrow> Modes (New v) mode = None"
  by (simp add: New_def AllModes_def)

lemma New_other:
  "mode \<notin> set AllModes \<Longrightarrow> Modes_index (New v) mode = zero_Settings"
  by (simp add: New_Modes_None Modes_index_None)

lemma checks_of_mode_New_PreCommit:
  "checks_of_mode (New v) PreCommit = {#build [], gofmt, test [''-short'']#}"
  by (simp add: checks_of_mode_def New_PreCommit)

lemma checks_of_mode_New_PrePush:
  "checks_of_mode (New v) PrePush =
     {#goimports,
       Coverage False \<lparr>MinCoverage = 50, MaxCoverage = 100\<rparr> \<lparr>MinCoverage = 0, MaxCoverage = 0\<rparr> [],
       test [''-v'', ''-race'']#}"
  by (simp add: checks_of_mode_def New_PrePush)

lemma checks_of_mode_New_ContinuousIntegration:
  "checks_of_mode (New v) ContinuousIntegration =
     {#build [], gofmt, goimports,
       Coverage True \<lparr>MinCoverage = 50, MaxCoverage = 100\<rparr> \<lparr>MinCoverage = 0, MaxCoverage = 0\<rparr> [],
       test [''-v'', ''-race'']#}"
  by (simp add: checks_of_mode_def New_ContinuousIntegration)

lemma checks_of_mode_New_Lint:
  "checks_of_mode (New v) Lint =
     {#errcheck ''Close'', golint [], govet ['' composite literal uses unkeyed fields'']#}"
  by (simp add: checks_of_mode_def New_Lint)

lemma checks_of_mode_New_other:
  "mode \<notin> set AllModes \<Longrightarrow> checks_of_mode (New v) mode = {#}"
  by (simp add: checks_of_mode_def New_other zero_Settings_def)

lemma EnabledChecks_mset:
  "orders_ok rt c modes \<Longrightarrow>
   mset (fst (EnabledChecks rt c modes)) = (\<Sum>mode\<leftarrow>modes. checks_of_mode c mode)"
  by (simp add: EnabledChecks_def EnabledChecks_loop_eq checks_in_range_order_mset)

lemma range_order_New_PreCommit:
  "range_order ks (Checks (Modes_index (New v) PreCommit)) \<longleftrightarrow>
     distinct ks \<and> set ks = {''build'', ''gofmt'', ''test''}"
  by (auto simp: range_order_def New_PreCommit)

lemma range_order_New_PrePush:
  "range_order ks (Checks (Modes_index (New v) PrePush)) \<longleftrightarrow>
     distinct ks \<and> set ks = {''goimports'', ''coverage'', ''test''}"
  by (auto simp: range_order_def New_PrePush)

lemma range_order_New_ContinuousIntegration:
  "range_order ks (Checks (Modes_index (New v) ContinuousIntegration)) \<longleftrightarrow>
     distinct ks \<and> set ks = {''build'', ''gofmt'', ''goimports'', ''coverage'', ''test''}"
  by (auto simp: range_order_def New_ContinuousIntegration)

subsection \<open>The claims about EnabledChecks and New\<close>

text \<open>
  C2 (amended). The effective maximal duration returned by \<open>EnabledChecks\<close> is the
  largest of 0, the initial value of the accumulator, and the \<^verbatim>\<open>MaxDuration\<close> of
  every requested mode (0 for a mode without an entry). When one of the requested modes
  has a non-negative \<^verbatim>\<open>MaxDuration\<close> this is the maximum of the values of the
  requested modes. It is strictly smaller than the sum of the \<^verbatim>\<open>MaxDuration\<close> of the
  requested modes whenever none of them is negative and two entries of the request have
  a positive one.
\<close>

theorem EnabledChecks_max_duration:
  "snd (EnabledChecks rt c modes) =
     Max (insert 0 (set (map (\<lambda>mode. MaxDuration (Modes_index c mode)) modes))) \<and>
   ((\<exists>mode\<in>set modes. 0 \<le> MaxDuration (Modes_index c mode)) \<longrightarrow>
     snd (EnabledChecks rt c modes) =
       Max (set (map (\<lambda>mode. MaxDuration (Modes_index c mode)) modes))) \<and>
   ((\<forall>mode\<in>set modes. 0 \<le> MaxDuration (Modes_index c mode)) \<and>
    i < length modes \<and> j < length modes \<and> i \<noteq> j \<and>
    0 < MaxDuration (Modes_index c (modes ! i)) \<and>
    0 < MaxDuration (Modes_index c (modes ! j)) \<longrightarrow>
     snd (EnabledChecks rt c modes) <
       (\<Sum>mode\<leftarrow>modes. MaxDuration (Modes_index c mode)))"
proof -
  let ?bs = "map (\<lambda>mode. MaxDuration (Modes_index c mode)) modes"
  have a: "snd (EnabledChecks rt c modes) = Max (insert 0 (set ?bs))"
    by (simp add: EnabledChecks_def EnabledChecks_loop_eq fold_max_Max)
  have b: "Max (insert 0 (set ?bs)) = Max (set ?bs)"
    if "\<exists>mode\<in>set modes. 0 \<le> MaxDuration (Modes_index c mode)"
  proof -
    from that obtain mode where "mode \<in> set modes" "0 \<le> MaxDuration (Modes_index c mode)"
      by blast
    then show ?thesis
      by (intro Max_insert_0 [of "MaxDuration (Modes_index c mode)"]) auto
  qed
  have s: "Max (insert 0 (set ?bs)) < sum_list ?bs"
    if "(\<forall>mode\<in>set modes. 0 \<le> MaxDuration (Modes_index c mode)) \<and>
      i < length modes \<and> j < length modes \<and> i \<noteq> j \<and>
      0 < MaxDuration (Modes_index c (modes ! i)) \<and>
      0 < MaxDuration (Modes_index c (modes ! j))"
    using that by (intro Max_less_sum_list [of ?bs i j]) auto
  from a b s show ?thesis by simp
qed

text \<open>
  The default configuration and the modes pre-push, continuous-integration and lint:
  the budgets are 15, 120 and 15, the result is 120, below their sum 150.
\<close>

theorem EnabledChecks_max_duration_witness:
  "snd (EnabledChecks (\<lambda>i. []) (New ''0.4'') [PrePush, ContinuousIntegration, Lint]) =
     Max (set (map (\<lambda>mode. MaxDuration (Modes_index (New ''0.4'') mode))
       [PrePush, ContinuousIntegration, Lint])) \<and>
   snd (EnabledChecks (\<lambda>i. []) (New ''0.4'') [PrePush, ContinuousIntegration, Lint]) = 120 \<and>
   (\<Sum>mode\<leftarrow>[PrePush, ContinuousIntegration, Lint]. MaxDuration (Modes_index (New ''0.4'') mode))
     = 150 \<and>
   snd (EnabledChecks (\<lambda>i. []) (New ''0.4'') [PrePush, ContinuousIntegration, Lint]) <
     (\<Sum>mode\<leftarrow>[PrePush, ContinuousIntegration, Lint].
        MaxDuration (Modes_index (New ''0.4'') mode))"
  using EnabledChecks_max_duration
    [of "\<lambda>i. []" "New ''0.4''" "[PrePush, ContinuousIntegration, Lint]" 0 1]
  by (simp add: New_PrePush New_ContinuousIntegration New_Lint)

text \<open>
  C2 as it is written fails for a mode whose \<^verbatim>\<open>MaxDuration\<close> is negative: the only
  requested mode has the budget \<open>-1\<close>, the function returns 0.
\<close>

theorem EnabledChecks_max_duration_counterexample:
  "snd (EnabledChecks (\<lambda>i. [''gofmt'']) negative_budget [PreCommit]) = 0 \<and>
   Max (set (map (\<lambda>mode. MaxDuration (Modes_index negative_budget mode)) [PreCommit])) = - 1 \<and>
   snd (EnabledChecks (\<lambda>i. [''gofmt'']) negative_budget [PreCommit]) \<noteq>
     Max (set (map (\<lambda>mode. MaxDuration (Modes_index negative_budget mode)) [PreCommit]))"
  by (simp add: EnabledChecks_def EnabledChecks_loop_eq Modes_index_def negative_budget_def)

text \<open>
  C3 (amended). The sequence returned by \<open>EnabledChecks\<close> is the concatenation, mode by
  mode in the order requested, of the lists of checks of every check type of the mode,
  each list in its own order; the check types of one mode follow each other in the
  order in which the runtime ranges over the \<^verbatim>\<open>Checks\<close> map, which Go leaves
  unspecified, and not in an order of registration. Whatever that order, nothing is
  dropped or deduplicated: as a multiset the result is the sum over the requested modes
  of the check instances of the mode, so an instance under two requested modes (or a
  mode requested twice) is there twice.
\<close>

theorem EnabledChecks_sequence:
  "fst (EnabledChecks rt c modes) = checks_in_range_order rt c modes \<and>
   (orders_ok rt c modes \<longrightarrow>
      mset (fst (EnabledChecks rt c modes)) = (\<Sum>mode\<leftarrow>modes. checks_of_mode c mode))"
  by (simp add: EnabledChecks_def EnabledChecks_loop_eq checks_in_range_order_mset)

text \<open>
  pre-commit and continuous-integration of the default configuration both have a
  \<^verbatim>\<open>build\<close> check with no extra arguments: it is in the result twice.
\<close>

theorem EnabledChecks_sequence_witness:
  "orders_ok (\<lambda>i. if i = 0 then [''build'', ''gofmt'', ''test'']
                  else [''test'', ''coverage'', ''goimports'', ''gofmt'', ''build''])
     (New ''0.4'') [PreCommit, ContinuousIntegration] \<and>
   fst (EnabledChecks (\<lambda>i. if i = 0 then [''build'', ''gofmt'', ''test'']
                  else [''test'', ''coverage'', ''goimports'', ''gofmt'', ''build''])
     (New ''0.4'') [PreCommit, ContinuousIntegration]) =
     [build [], gofmt, test [''-short''],
      test [''-v'', ''-race''],
      Coverage True \<lparr>MinCoverage = 50, MaxCoverage = 100\<rparr> \<lparr>MinCoverage = 0, MaxCoverage = 0\<rparr> [],
      goimports, gofmt, build []] \<and>
   mset (fst (EnabledChecks (\<lambda>i. if i = 0 then [''build'', ''gofmt'', ''test'']
                  else [''test'', ''coverage'', ''goimports'', ''gofmt'', ''build''])
     (New ''0.4'') [PreCommit, ContinuousIntegration])) =
     checks_of_mode (New ''0.4'') PreCommit + checks_of_mode (New ''0.4'') ContinuousIntegration \<and>
   count (checks_of_mode (New ''0.4'') PreCommit + checks_of_mode (New ''0.4'') ContinuousIntegration)
     (build []) = 2"
proof -
  let ?rt = "\<lambda>i::nat. if i = 0 then [''build'', ''gofmt'', ''test'']
                  else [''test'', ''coverage'', ''goimports'', ''gofmt'', ''build'']"
  have ok: "orders_ok ?rt (New ''0.4'') [PreCommit, ContinuousIntegration]"
    by (auto simp: range_order_New_PreCommit range_order_New_ContinuousIntegration)
  have c: "count (checks_of_mode (New ''0.4'') PreCommit
      + checks_of_mode (New ''0.4'') ContinuousIntegration) (build []) = 2"
    by (simp add: checks_of_mode_New_PreCommit checks_of_mode_New_ContinuousIntegration)
  note s = EnabledChecks_sequence [of ?rt "New ''0.4''" "[PreCommit, ContinuousIntegration]"]
  have "fst (EnabledChecks ?rt (New ''0.4'') [PreCommit, ContinuousIntegration]) =
      checks_in_range_order ?rt (New ''0.4'') [PreCommit, ContinuousIntegration]"
    by (rule s [THEN conjunct1])
  also have "\<dots> =
     [build [], gofmt, test [''-short''],
      test [''-v'', ''-race''],
      Coverage True \<lparr>MinCoverage = 50, MaxCoverage = 100\<rparr> \<lparr>MinCoverage = 0, MaxCoverage = 0\<rparr> [],
      goimports, gofmt, build []]"
    by (simp add: New_PreCommit New_ContinuousIntegration go_range_def List.map_filter_def)
  finally have a: "fst (EnabledChecks ?rt (New ''0.4'') [PreCommit, ContinuousIntegration]) =
     [build [], gofmt, test [''-short''],
      test [''-v'', ''-race''],
      Coverage True \<lparr>MinCoverage = 50, MaxCoverage = 100\<rparr> \<lparr>MinCoverage = 0, MaxCoverage = 0\<rparr> [],
      goimports, gofmt, build []]" .
  have "mset (fst (EnabledChecks ?rt (New ''0.4'') [PreCommit, ContinuousIntegration])) =
      (\<Sum>mode\<leftarrow>[PreCommit, ContinuousIntegration]. checks_of_mode (New ''0.4'') mode)"
    by (rule s [THEN conjunct2, THEN mp, OF ok])
  also have "\<dots> = checks_of_mode (New ''0.4'') PreCommit
      + checks_of_mode (New ''0.4'') ContinuousIntegration"
    by simp
  finally have b: "mset (fst (EnabledChecks ?rt (New ''0.4'') [PreCommit, ContinuousIntegration])) =
      checks_of_mode (New ''0.4'') PreCommit
      + checks_of_mode (New ''0.4'') ContinuousIntegration" .
  show ?thesis by (intro conjI ok a b c)
qed

text \<open>
  C3 as it is written fails: for the default configuration and the single mode
  pre-commit, two orders of the \<^verbatim>\<open>range\<close> over the same map, both possible in Go,
  return two different sequences, so the sequence is not determined by an order in which
  the checks were registered.
\<close>

theorem EnabledChecks_sequence_counterexample:
  "orders_ok (\<lambda>i. [''build'', ''gofmt'', ''test'']) (New ''0.4'') [PreCommit] \<and>
   orders_ok (\<lambda>i. [''test'', ''gofmt'', ''build'']) (New ''0.4'') [PreCommit] \<and>
   fst (EnabledChecks (\<lambda>i. [''build'', ''gofmt'', ''test'']) (New ''0.4'') [PreCommit]) =
     [build [], gofmt, test [''-short'']] \<and>
   fst (EnabledChecks (\<lambda>i. [''test'', ''gofmt'', ''build'']) (New ''0.4'') [PreCommit]) =
     [test [''-short''], gofmt, build []] \<and>
   fst (EnabledChecks (\<lambda>i. [''build'', ''gofmt'', ''test'']) (New ''0.4'') [PreCommit]) \<noteq>
   fst (EnabledChecks (\<lambda>i. [''test'', ''gofmt'', ''build'']) (New ''0.4'') [PreCommit])"
proof -
  have "orders_ok (\<lambda>i. [''build'', ''gofmt'', ''test'']) (New ''0.4'') [PreCommit]"
    by (auto simp: range_order_New_PreCommit)
  moreover have "orders_ok (\<lambda>i. [''test'', ''gofmt'', ''build'']) (New ''0.4'') [PreCommit]"
    by (auto simp: range_order_New_PreCommit)
  moreover have "fst (EnabledChecks (\<lambda>i. [''build'', ''gofmt'', ''test'']) (New ''0.4'') [PreCommit]) =
     [build [], gofmt, test [''-short'']]"
    by (simp add: EnabledChecks_def EnabledChecks_loop_eq New_PreCommit go_range_def
        List.map_filter_def)
  moreover have "fst (EnabledChecks (\<lambda>i. [''test'', ''gofmt'', ''build'']) (New ''0.4'') [PreCommit]) =
     [test [''-short''], gofmt, build []]"
    by (simp add: EnabledChecks_def EnabledChecks_loop_eq New_PreCommit go_range_def
        List.map_filter_def)
  ultimately show ?thesis by simp
qed

text \<open>
  C4. On the default configuration, whatever the order of the \<^verbatim>\<open>range\<close>,
  \<open>EnabledChecks\<close> for pre-commit returns exactly three checks, a \<^verbatim>\<open>build\<close> check, a
  \<^verbatim>\<open>gofmt\<close> check and a \<^verbatim>\<open>test\<close> check with \<^verbatim>\<open>-short\<close>, and the maximal duration
  5; for pre-commit and pre-push together (in either order) it returns the six checks of
  the two modes and the maximal duration 15.
\<close>

theorem EnabledChecks_New:
  "(orders_ok rt (New v) [PreCommit] \<longrightarrow>
      length (fst (EnabledChecks rt (New v) [PreCommit])) = 3 \<and>
      mset (fst (EnabledChecks rt (New v) [PreCommit])) = {#build [], gofmt, test [''-short'']#} \<and>
      snd (EnabledChecks rt (New v) [PreCommit]) = 5) \<and>
   (modes \<in> {[PreCommit, PrePush], [PrePush, PreCommit]} \<and> orders_ok rt' (New v) modes \<longrightarrow>
      length (fst (EnabledChecks rt' (New v) modes)) = 6 \<and>
      mset (fst (EnabledChecks rt' (New v) modes)) =
        {#build [], gofmt, test [''-short''], goimports,
          Coverage False \<lparr>MinCoverage = 50, MaxCoverage = 100\<rparr>
            \<lparr>MinCoverage = 0, MaxCoverage = 0\<rparr> [],
          test [''-v'', ''-race'']#} \<and>
      snd (EnabledChecks rt' (New v) modes) = 15)"
proof (intro conjI impI)
  assume ok: "orders_ok rt (New v) [PreCommit]"
  have m: "mset (fst (EnabledChecks rt (New v) [PreCommit])) = {#build [], gofmt, test [''-short'']#}"
    using EnabledChecks_mset [OF ok] by (simp add: checks_of_mode_New_PreCommit)
  show "mset (fst (EnabledChecks rt (New v) [PreCommit])) = {#build [], gofmt, test [''-short'']#}"
    by (rule m)
  have "size (mset (fst (EnabledChecks rt (New v) [PreCommit]))) = 3"
    unfolding m by simp
  then show "length (fst (EnabledChecks rt (New v) [PreCommit])) = 3" by simp
  show "snd (EnabledChecks rt (New v) [PreCommit]) = 5"
    by (simp add: EnabledChecks_def EnabledChecks_loop_eq New_PreCommit)
next
  let ?six = "{#build [], gofmt, test [''-short''], goimports,
          Coverage False \<lparr>MinCoverage = 50, MaxCoverage = 100\<rparr>
            \<lparr>MinCoverage = 0, MaxCoverage = 0\<rparr> [],
          test [''-v'', ''-race'']#}"
  assume a: "modes \<in> {[PreCommit, PrePush], [PrePush, PreCommit]} \<and> orders_ok rt' (New v) modes"
  then have ok: "orders_ok rt' (New v) modes" and
    ms: "modes = [PreCommit, PrePush] \<or> modes = [PrePush, PreCommit]"
    by auto
  have m: "mset (fst (EnabledChecks rt' (New v) modes)) = ?six"
    using EnabledChecks_mset [OF ok] ms
    by (auto simp: checks_of_mode_New_PreCommit checks_of_mode_New_PrePush)
  show "mset (fst (EnabledChecks rt' (New v) modes)) = ?six" by (rule m)
  have "size (mset (fst (EnabledChecks rt' (New v) modes))) = 6"
    unfolding m by simp
  then show "length (fst (EnabledChecks rt' (New v) modes)) = 6" by simp
  show "snd (EnabledChecks rt' (New v) modes) = 15"
    using ms by (auto simp: EnabledChecks_def EnabledChecks_loop_eq New_PreCommit New_PrePush)
qed

text \<open>Two orders of the runtime at which the hypotheses of C4 hold.\<close>

theorem EnabledChecks_New_witness:
  "orders_ok (\<lambda>i. [''test'', ''build'', ''gofmt'']) (New ''0.4'') [PreCommit] \<and>
   length (fst (EnabledChecks (\<lambda>i. [''test'', ''build'', ''gofmt'']) (New ''0.4'') [PreCommit])) = 3 \<and>
   snd (EnabledChecks (\<lambda>i. [''test'', ''build'', ''gofmt'']) (New ''0.4'') [PreCommit]) = 5 \<and>
   orders_ok (\<lambda>i. if i = 0 then [''test'', ''build'', ''gofmt'']
                  else [''coverage'', ''test'', ''goimports''])
     (New ''0.4'') [PreCommit, PrePush] \<and>
   length (fst (EnabledChecks (\<lambda>i. if i = 0 then [''test'', ''build'', ''gofmt'']
                  else [''coverage'', ''test'', ''goimports''])
     (New ''0.4'') [PreCommit, PrePush])) = 6 \<and>
   snd (EnabledChecks (\<lambda>i. if i = 0 then [''test'', ''build'', ''gofmt'']
                  else [''coverage'', ''test'', ''goimports''])
     (New ''0.4'') [PreCommit, PrePush]) = 15"
proof -
  let ?rt = "\<lambda>i::nat. [''test'', ''build'', ''gofmt'']"
  let ?rt' = "\<lambda>i::nat. if i = 0 then [''test'', ''build'', ''gofmt'']
                  else [''coverage'', ''test'', ''goimports'']"
  have ok: "orders_ok ?rt (New ''0.4'') [PreCommit]"
    by (auto simp: range_order_New_PreCommit)
  have ok': "orders_ok ?rt' (New ''0.4'') [PreCommit, PrePush]"
    by (auto simp: range_order_New_PreCommit range_order_New_PrePush)
  from EnabledChecks_New [of ?rt "''0.4''" "[PreCommit, PrePush]" ?rt'] ok ok'
  show ?thesis by simp
qed

text \<open>
  C5 (amended). In the default configuration the check types of continuous-integration
  are those of pre-push plus \<^verbatim>\<open>build\<close> and \<^verbatim>\<open>gofmt\<close>; its checks are those of
  pre-push with the \<^verbatim>\<open>Coverage\<close> check replaced by one that has \<^verbatim>\<open>UseCoveralls\<close>
  true (same thresholds), plus a \<^verbatim>\<open>build\<close> check and a \<^verbatim>\<open>gofmt\<close> check; its
  budget is 120 seconds. The check types and the checks of lint are in no other mode.
\<close>

theorem New_ContinuousIntegration_checks:
  "dom (Checks (Modes_index (New v) ContinuousIntegration)) =
     dom (Checks (Modes_index (New v) PrePush)) \<union> {''build'', ''gofmt''} \<and>
   checks_of_mode (New v) ContinuousIntegration =
     checks_of_mode (New v) PrePush
       - {#Coverage False \<lparr>MinCoverage = 50, MaxCoverage = 100\<rparr>
            \<lparr>MinCoverage = 0, MaxCoverage = 0\<rparr> []#}
       + {#Coverage True \<lparr>MinCoverage = 50, MaxCoverage = 100\<rparr>
            \<lparr>MinCoverage = 0, MaxCoverage = 0\<rparr> [], build [], gofmt#} \<and>
   MaxDuration (Modes_index (New v) ContinuousIntegration) = 120 \<and>
   (mode \<noteq> Lint \<longrightarrow>
      dom (Checks (Modes_index (New v) Lint)) \<inter> dom (Checks (Modes_index (New v) mode)) = {} \<and>
      set_mset (checks_of_mode (New v) Lint) \<inter> set_mset (checks_of_mode (New v) mode) = {})"
proof (intro conjI impI)
  show "dom (Checks (Modes_index (New v) ContinuousIntegration)) =
     dom (Checks (Modes_index (New v) PrePush)) \<union> {''build'', ''gofmt''}"
    by (auto simp: New_ContinuousIntegration New_PrePush)
  show "checks_of_mode (New v) ContinuousIntegration =
     checks_of_mode (New v) PrePush
       - {#Coverage False \<lparr>MinCoverage = 50, MaxCoverage = 100\<rparr>
            \<lparr>MinCoverage = 0, MaxCoverage = 0\<rparr> []#}
       + {#Coverage True \<lparr>MinCoverage = 50, MaxCoverage = 100\<rparr>
            \<lparr>MinCoverage = 0, MaxCoverage = 0\<rparr> [], build [], gofmt#}"
    by (simp add: checks_of_mode_New_ContinuousIntegration checks_of_mode_New_PrePush)
  show "MaxDuration (Modes_index (New v) ContinuousIntegration) = 120"
    by (simp add: New_ContinuousIntegration)
next
  assume "mode \<noteq> Lint"
  then consider "mode = PreCommit" | "mode = PrePush" | "mode = ContinuousIntegration"
    | "mode \<notin> set AllModes"
    by (auto simp: AllModes_def)
  then show "dom (Checks (Modes_index (New v) Lint)) \<inter> dom (Checks (Modes_index (New v) mode)) = {}"
    by cases (simp_all add: New_Lint New_PreCommit New_PrePush New_ContinuousIntegration
        New_other zero_Settings_def)
next
  assume "mode \<noteq> Lint"
  then consider "mode = PreCommit" | "mode = PrePush" | "mode = ContinuousIntegration"
    | "mode \<notin> set AllModes"
    by (auto simp: AllModes_def)
  then show "set_mset (checks_of_mode (New v) Lint) \<inter> set_mset (checks_of_mode (New v) mode) = {}"
    by cases (simp_all add: checks_of_mode_New_Lint checks_of_mode_New_PreCommit
        checks_of_mode_New_PrePush checks_of_mode_New_ContinuousIntegration
        checks_of_mode_New_other)
qed

text \<open>The lint part of C5 at the mode continuous-integration.\<close>

theorem New_ContinuousIntegration_checks_witness:
  "ContinuousIntegration \<noteq> Lint \<and>
   dom (Checks (Modes_index (New ''0.4'') Lint))
     \<inter> dom (Checks (Modes_index (New ''0.4'') ContinuousIntegration)) = {} \<and>
   set_mset (checks_of_mode (New ''0.4'') Lint)
     \<inter> set_mset (checks_of_mode (New ''0.4'') ContinuousIntegration) = {}"
proof -
  have ne: "ContinuousIntegration \<noteq> Lint"
    by (simp add: mode_defs)
  note t = New_ContinuousIntegration_checks [of "''0.4''" ContinuousIntegration]
  note d = t [THEN conjunct2, THEN conjunct2, THEN conjunct2, THEN mp, OF ne]
  show ?thesis by (intro conjI ne d [THEN conjunct1] d [THEN conjunct2])
qed

text \<open>
  C5 as it is written fails: the \<^verbatim>\<open>Coverage\<close> check of pre-push (no upload to
  coveralls) is not a check of continuous-integration, whose \<^verbatim>\<open>Coverage\<close> check
  uploads; the check set of continuous-integration is not that of pre-push plus a build
  and a format check.
\<close>

theorem New_ContinuousIntegration_counterexample:
  "set_mset (checks_of_mode (New ''0.4'') ContinuousIntegration) \<noteq>
     set_mset (checks_of_mode (New ''0.4'') PrePush) \<union> {build [], gofmt} \<and>
   Coverage False \<lparr>MinCoverage = 50, MaxCoverage = 100\<rparr> \<lparr>MinCoverage = 0, MaxCoverage = 0\<rparr> []
     \<in># checks_of_mode (New ''0.4'') PrePush \<and>
   Coverage False \<lparr>MinCoverage = 50, MaxCoverage = 100\<rparr> \<lparr>MinCoverage = 0, MaxCoverage = 0\<rparr> []
     \<notin># checks_of_mode (New ''0.4'') ContinuousIntegration"
proof -
  let ?cov = "Coverage False \<lparr>MinCoverage = 50, MaxCoverage = 100\<rparr>
    \<lparr>MinCoverage = 0, MaxCoverage = 0\<rparr> []"
  have a: "?cov \<in># checks_of_mode (New ''0.4'') PrePush"
    by (simp add: checks_of_mode_New_PrePush)
  have b: "?cov \<notin># checks_of_mode (New ''0.4'') ContinuousIntegration"
    by (simp add: checks_of_mode_New_ContinuousIntegration)
  from a b have "set_mset (checks_of_mode (New ''0.4'') ContinuousIntegration) \<noteq>
     set_mset (checks_of_mode (New ''0.4'') PrePush) \<union> {build [], gofmt}"
    by blast
  then show ?thesis using a b by blast
qed

text \<open>
  C10. With an empty list of modes, or with modes that have no entry in the \<^verbatim>\<open>Modes\<close>
  map of the configuration, \<open>EnabledChecks\<close> returns the empty sequence of checks and
  the effective maximal duration 0, whatever the configuration and whatever order the
  runtime ranges in. The function has no error result and is total: indexing a map
  at an absent key and ranging over a nil map are defined in Go, so no request makes it
  fail.
\<close>

theorem EnabledChecks_no_entry:
  "EnabledChecks rt c [] = ([], 0) \<and>
   ((\<forall>mode\<in>set modes. Modes c mode = None) \<longrightarrow> EnabledChecks rt c modes = ([], 0))"
  by (simp add: EnabledChecks_def EnabledChecks_loop_eq checks_in_range_order_no_entry
      budgets_no_entry)

theorem EnabledChecks_no_entry_witness:
  "EnabledChecks (\<lambda>i. []) (New ''0.4'') [] = ([], 0) \<and>
   EnabledChecks (\<lambda>i. [''test'']) (New ''0.4'') [''nightly'', ''all''] = ([], 0)"
  using EnabledChecks_no_entry [of "\<lambda>i. []" "New ''0.4''" "[]"]
    EnabledChecks_no_entry [of "\<lambda>i. [''test'']" "New ''0.4''" "[''nightly'', ''all'']"]
  by (simp add: New_Modes_None AllModes_def PreCommit_def PrePush_def
      ContinuousIntegration_def Lint_def)

section \<open>Properties of the decoders\<close>

text \<open>
  C6. Decoding a mode name succeeds for each of the four names pre-commit, pre-push,
  continuous-integration and lint, and then assigns that name to the receiver; for
  every other string it fails with the error \<^verbatim>\<open>invalid mode "s"\<close> that names the
  string, and leaves the receiver as it was.
\<close>

theorem Mode_UnmarshalYAML_decode:
  "Mode_UnmarshalYAML (Inr s) m =
     (if s \<in> {''pre-commit'', ''pre-push'', ''continuous-integration'', ''lint''}
      then (None, s)
      else (Some (Errorf (''invalid mode '' @ [CHR 0x22] @ s @ [CHR 0x22])), m))"
  by (simp add: Mode_UnmarshalYAML_def AllModes_def PreCommit_def PrePush_def
      ContinuousIntegration_def Lint_def quoted_def)

text \<open>C6 at one known name and at one unknown name.\<close>

theorem Mode_UnmarshalYAML_decode_witness:
  "Mode_UnmarshalYAML (Inr ''lint'') ''pre-push'' = (None, ''lint'') \<and>
   Mode_UnmarshalYAML (Inr ''all'') ''pre-push'' =
     (Some (Errorf (''invalid mode '' @ [CHR 0x22] @ ''all'' @ [CHR 0x22])), ''pre-push'')"
  using Mode_UnmarshalYAML_decode [of "''lint''" "''pre-push''"]
    Mode_UnmarshalYAML_decode [of "''all''" "''pre-push''"]
  by simp

lemma blocks_ok:
  "\<forall>b\<in>set bs. \<exists>check. decoded mar unm f b check \<Longrightarrow>
   fst (UnmarshalYAML_blocks mar unm f name bs c) = None"
  by (induction bs arbitrary: c) (auto simp: decoded_def)

lemma blocks_result:
  "UnmarshalYAML_blocks mar unm f name bs c = (None, c') \<Longrightarrow>
   \<exists>checks. list_all2 (decoded mar unm f) bs checks \<and>
     Checks_index c' name = Checks_index c name @ checks \<and>
     (\<forall>k. k \<noteq> name \<longrightarrow> c' k = c k)"
proof (induction bs arbitrary: c)
  case Nil
  then show ?case by simp
next
  case (Cons b bs)
  from Cons.prems obtain raw check where
    m: "mar b = Inr raw" and u: "unm raw (f ()) = Inr check" and
    r: "UnmarshalYAML_blocks mar unm f name bs (c(name \<mapsto> Checks_index c name @ [check])) = (None, c')"
    by (auto split: sum.splits)
  from Cons.IH [OF r] obtain checks where
    l: "list_all2 (decoded mar unm f) bs checks" and
    i: "Checks_index c' name = Checks_index (c(name \<mapsto> Checks_index c name @ [check])) name @ checks" and
    o: "\<forall>k. k \<noteq> name \<longrightarrow> c' k = (c(name \<mapsto> Checks_index c name @ [check])) k"
    by blast
  have "list_all2 (decoded mar unm f) (b # bs) (check # checks)"
    using l m u by (simp add: decoded_def)
  moreover have "Checks_index c' name = Checks_index c name @ (check # checks)"
    using i by (simp add: Checks_index_def)
  moreover have "\<forall>k. k \<noteq> name \<longrightarrow> c' k = c k"
    using o by simp
  ultimately show ?case by blast
qed


lemma go_range_fst:
  "set ks \<subseteq> dom m \<Longrightarrow> map fst (go_range ks m) = ks"
  by (induction ks) (auto simp: go_range_def List.map_filter_def)

lemma go_range_set:
  "range_order ks m \<Longrightarrow> (k, v) \<in> set (go_range ks m) \<longleftrightarrow> m k = Some v"
  by (force simp: go_range_def range_order_def List.map_filter_def image_iff)

lemma types_fails:
  "(name, bs) \<in> set es \<Longrightarrow> known name = None \<Longrightarrow>
   fst (UnmarshalYAML_types mar unm known es c) \<noteq> None"
proof (induction es arbitrary: c)
  case Nil
  then show ?case by simp
next
  case (Cons e es)
  obtain k v where e: "e = (k, v)" by (cases e)
  show ?case
  proof (cases "known k")
    case None
    then show ?thesis by (simp add: e)
  next
    case (Some f)
    with Cons.prems e have in_rest: "(name, bs) \<in> set es" by auto
    obtain r c1 where b: "UnmarshalYAML_blocks mar unm f k v c = (r, c1)"
      by (cases "UnmarshalYAML_blocks mar unm f k v c")
    show ?thesis
    proof (cases r)
      case None
      with Cons.IH [OF in_rest Cons.prems(2), of c1] show ?thesis
        by (simp add: e Some b)
    next
      case (Some err)
      then show ?thesis by (simp add: e \<open>known k = Some f\<close> b)
    qed
  qed
qed

lemma types_names:
  "(name, bs) \<in> set es \<Longrightarrow> known name = None \<Longrightarrow>
   \<forall>(k, v)\<in>set es. k \<noteq> name \<longrightarrow>
     (\<exists>f. known k = Some f \<and> (\<forall>b\<in>set v. \<exists>check. decoded mar unm f b check)) \<Longrightarrow>
   fst (UnmarshalYAML_types mar unm known es c) =
     Some (Errorf (''unknown check '' @ quoted name))"
proof (induction es arbitrary: c)
  case Nil
  then show ?case by simp
next
  case (Cons e es)
  obtain k v where e: "e = (k, v)" by (cases e)
  show ?case
  proof (cases "k = name")
    case True
    with Cons.prems(2) show ?thesis by (simp add: e)
  next
    case False
    with Cons.prems(3) e obtain f where
      f: "known k = Some f" and d: "\<forall>b\<in>set v. \<exists>check. decoded mar unm f b check"
      by auto
    from False Cons.prems(1) e have in_rest: "(name, bs) \<in> set es" by auto
    obtain r c1 where b: "UnmarshalYAML_blocks mar unm f k v c = (r, c1)"
      by (cases "UnmarshalYAML_blocks mar unm f k v c")
    from blocks_ok [OF d, of k c] b have r: "r = None" by simp
    from Cons.prems(3) have rest: "\<forall>(k, v)\<in>set es. k \<noteq> name \<longrightarrow>
      (\<exists>f. known k = Some f \<and> (\<forall>b\<in>set v. \<exists>check. decoded mar unm f b check))"
      by auto
    from Cons.IH [OF in_rest Cons.prems(2) rest, of c1] show ?thesis
      by (simp add: e f b r)
  qed
qed

lemma types_result:
  "UnmarshalYAML_types mar unm known es c = (None, c') \<Longrightarrow> distinct (map fst es) \<Longrightarrow>
   (\<forall>(k, bs)\<in>set es. \<exists>f checks. known k = Some f \<and> list_all2 (decoded mar unm f) bs checks \<and>
      Checks_index c' k = Checks_index c k @ checks) \<and>
   (\<forall>k. k \<notin> fst ` set es \<longrightarrow> c' k = c k)"
proof (induction es arbitrary: c)
  case Nil
  then show ?case by simp
next
  case (Cons e es)
  obtain k v where e: "e = (k, v)" by (cases e)
  from Cons.prems(1) e obtain f where f: "known k = Some f"
    by (cases "known k") auto
  obtain r c1 where b: "UnmarshalYAML_blocks mar unm f k v c = (r, c1)"
    by (cases "UnmarshalYAML_blocks mar unm f k v c")
  from Cons.prems(1) e f b have r: "r = None"
    by (cases r) auto
  from Cons.prems(1) e f b r have rest: "UnmarshalYAML_types mar unm known es c1 = (None, c')"
    by simp
  from Cons.prems(2) e have dist: "distinct (map fst es)" and fresh: "k \<notin> fst ` set es"
    by auto
  from blocks_result [OF b [unfolded r]] obtain checks where
    l: "list_all2 (decoded mar unm f) v checks" and
    i: "Checks_index c1 k = Checks_index c k @ checks" and
    o: "\<forall>k'. k' \<noteq> k \<longrightarrow> c1 k' = c k'"
    by blast
  from Cons.IH [OF rest dist] have
    ih1: "\<forall>(k, bs)\<in>set es. \<exists>f checks. known k = Some f \<and> list_all2 (decoded mar unm f) bs checks
      \<and> Checks_index c' k = Checks_index c1 k @ checks" and
    ih2: "\<forall>k. k \<notin> fst ` set es \<longrightarrow> c' k = c1 k"
    by blast+
  have head: "\<exists>f checks. known k = Some f \<and> list_all2 (decoded mar unm f) v checks \<and>
      Checks_index c' k = Checks_index c k @ checks"
  proof -
    from ih2 fresh have "c' k = c1 k" by blast
    then have "Checks_index c' k = Checks_index c1 k" by (simp add: Checks_index_def)
    with f l i show ?thesis by auto
  qed
  have tail: "\<exists>f checks. known k' = Some f \<and> list_all2 (decoded mar unm f) bs' checks \<and>
      Checks_index c' k' = Checks_index c k' @ checks" if "(k', bs') \<in> set es" for k' bs'
  proof -
    from that fresh have "k' \<noteq> k" by force
    with o have "Checks_index c1 k' = Checks_index c k'" by (simp add: Checks_index_def)
    with ih1 that show ?thesis by fastforce
  qed
  have others: "c' k' = c k'" if "k' \<notin> fst ` set (e # es)" for k'
  proof -
    from that e have "k' \<noteq> k" "k' \<notin> fst ` set es" by auto
    with ih2 o show ?thesis by simp
  qed
  from head tail others show ?case by (auto simp: e)
qed


lemma go_range_distinct:
  "range_order ks m \<Longrightarrow> distinct (map fst (go_range ks m))"
  by (simp add: range_order_def go_range_fst)

lemma blocks_error_independent:
  "fst (UnmarshalYAML_blocks mar unm f name bs c) = fst (UnmarshalYAML_blocks mar unm f name bs c')"
  by (induction bs arbitrary: c c') (auto split: sum.splits)

lemma blocks_rejected:
  "\<forall>b'\<in>set bs1. \<exists>check. decoded mar unm f b' check \<Longrightarrow> rejected mar unm f b e \<Longrightarrow>
   fst (UnmarshalYAML_blocks mar unm f name (bs1 @ b # bs2) c) = Some e"
proof (induction bs1 arbitrary: c)
  case Nil
  then show ?case by (auto simp: rejected_def)
next
  case (Cons a bs1)
  from Cons.prems(1) obtain raw check where "mar a = Inr raw" "unm raw (f ()) = Inr check"
    by (auto simp: decoded_def)
  moreover from Cons.prems have "\<forall>b'\<in>set bs1. \<exists>check. decoded mar unm f b' check" by simp
  ultimately show ?case using Cons.IH Cons.prems(2) by simp
qed

lemma types_ok:
  "\<forall>(k, v)\<in>set es. \<exists>f. known k = Some f \<and> (\<forall>b\<in>set v. \<exists>check. decoded mar unm f b check) \<Longrightarrow>
   fst (UnmarshalYAML_types mar unm known es c) = None"
proof (induction es arbitrary: c)
  case Nil
  then show ?case by simp
next
  case (Cons e es)
  obtain k v where e: "e = (k, v)" by (cases e)
  from Cons.prems e obtain f where
    f: "known k = Some f" and d: "\<forall>b\<in>set v. \<exists>check. decoded mar unm f b check"
    by auto
  obtain r c1 where b: "UnmarshalYAML_blocks mar unm f k v c = (r, c1)"
    by (cases "UnmarshalYAML_blocks mar unm f k v c")
  from blocks_ok [OF d, of k c] b have r: "r = None" by simp
  from Cons.prems have "\<forall>(k, v)\<in>set es. \<exists>f. known k = Some f \<and>
      (\<forall>b\<in>set v. \<exists>check. decoded mar unm f b check)"
    by simp
  from Cons.IH [OF this, of c1] show ?case by (simp add: e f b r)
qed

lemma types_prefix:
  "\<forall>(k, v)\<in>set es1. \<exists>f. known k = Some f \<and> (\<forall>b\<in>set v. \<exists>check. decoded mar unm f b check) \<Longrightarrow>
   \<exists>c'. UnmarshalYAML_types mar unm known (es1 @ es) c = UnmarshalYAML_types mar unm known es c'"
proof (induction es1 arbitrary: c)
  case Nil
  then show ?case by auto
next
  case (Cons e es1)
  obtain k v where e: "e = (k, v)" by (cases e)
  from Cons.prems e obtain f where
    f: "known k = Some f" and d: "\<forall>b\<in>set v. \<exists>check. decoded mar unm f b check"
    by auto
  obtain r c1 where b: "UnmarshalYAML_blocks mar unm f k v c = (r, c1)"
    by (cases "UnmarshalYAML_blocks mar unm f k v c")
  from blocks_ok [OF d, of k c] b have r: "r = None" by simp
  from Cons.prems have "\<forall>(k, v)\<in>set es1. \<exists>f. known k = Some f \<and>
      (\<forall>b\<in>set v. \<exists>check. decoded mar unm f b check)"
    by simp
  from Cons.IH [OF this, of c1] show ?case by (simp add: e f b r)
qed

lemma types_first_unknown:
  assumes "\<forall>(k, v)\<in>set es1. \<exists>f. known k = Some f \<and> (\<forall>b\<in>set v. \<exists>check. decoded mar unm f b check)"
    and "known name = None"
  shows "fst (UnmarshalYAML_types mar unm known (es1 @ (name, v) # es2) c) =
     Some (Errorf (''unknown check '' @ quoted name))"
proof -
  from types_prefix [OF assms(1), of "(name, v) # es2" c] obtain c' where
    "UnmarshalYAML_types mar unm known (es1 @ (name, v) # es2) c =
     UnmarshalYAML_types mar unm known ((name, v) # es2) c'"
    by blast
  with assms(2) show ?thesis by simp
qed

lemma types_first_rejected:
  assumes "\<forall>(k, v)\<in>set es1. \<exists>f. known k = Some f \<and> (\<forall>b\<in>set v. \<exists>check. decoded mar unm f b check)"
    and "known k = Some f"
    and "\<forall>b'\<in>set bs1. \<exists>check. decoded mar unm f b' check"
    and "rejected mar unm f b e"
  shows "fst (UnmarshalYAML_types mar unm known (es1 @ (k, bs1 @ b # bs2) # es2) c) = Some e"
proof -
  from types_prefix [OF assms(1), of "(k, bs1 @ b # bs2) # es2" c] obtain c' where
    t: "UnmarshalYAML_types mar unm known (es1 @ (k, bs1 @ b # bs2) # es2) c =
     UnmarshalYAML_types mar unm known ((k, bs1 @ b # bs2) # es2) c'"
    by blast
  obtain r c1 where b: "UnmarshalYAML_blocks mar unm f k (bs1 @ b # bs2) c' = (r, c1)"
    by (cases "UnmarshalYAML_blocks mar unm f k (bs1 @ b # bs2) c'")
  from blocks_rejected [OF assms(3,4), of k bs2 c'] b have "r = Some e" by simp
  with t b assms(2) show ?thesis by simp
qed

lemma go_range_append:
  "go_range (ks @ ks') m = go_range ks m @ go_range ks' m"
  by (induction ks) (auto simp: go_range_def split: option.splits)

lemma go_range_Cons:
  "m k = Some v \<Longrightarrow> go_range (k # ks) m = (k, v) # go_range ks m"
  by (simp add: go_range_def)

lemma go_range_entries:
  "(k, v) \<in> set (go_range ks m) \<Longrightarrow> k \<in> set ks \<and> m k = Some v"
  by (induction ks) (auto simp: go_range_def split: option.splits)


text \<open>
  C7 (amended). Decoding a checks block that contains a check type name absent from the
  registry always fails. The error is that of the first failure the loop meets in the
  order of the \<^verbatim>\<open>range\<close>: when every check type ranged over before is registered and
  all its blocks decode, a name absent from the registry gives \<^verbatim>\<open>unknown check "name"\<close>,
  naming that exact string, and a block that \<^verbatim>\<open>yaml.Marshal\<close> or \<^verbatim>\<open>yaml.Unmarshal\<close>
  rejects, after blocks of its type that decode, gives the error of \<^verbatim>\<open>yaml\<close>. So the
  error names the absent name whenever every other check type of the block is
  registered and all blocks of those types decode. A block whose check type names are
  all registered and whose raw blocks all decode is decoded without error; and whenever
  decoding succeeds, every check type name of the block is registered and the result
  holds under it one instance for each raw block of the name, in the order of the
  blocks, each made by the factory of the registry and filled from its block.
\<close>

theorem Checks_UnmarshalYAML_decode:
  assumes "range_order ks encoded"
  shows
   "(encoded name = Some bs \<and> KnownChecks name = None \<longrightarrow>
       fst (Checks_UnmarshalYAML ks Marshal Unmarshal KnownChecks (Inr encoded) c) \<noteq> None) \<and>
    (encoded name = Some bs \<and> KnownChecks name = None \<and>
     (\<forall>k\<in>dom encoded. k \<noteq> name \<longrightarrow>
        (\<exists>f. KnownChecks k = Some f \<and>
           (\<forall>b\<in>set (the (encoded k)). \<exists>check. decoded Marshal Unmarshal f b check))) \<longrightarrow>
       fst (Checks_UnmarshalYAML ks Marshal Unmarshal KnownChecks (Inr encoded) c) =
         Some (Errorf (''unknown check '' @ [CHR 0x22] @ name @ [CHR 0x22]))) \<and>
    (fst (Checks_UnmarshalYAML ks Marshal Unmarshal KnownChecks (Inr encoded) c) = None \<longrightarrow>
       (\<forall>k blocks. encoded k = Some blocks \<longrightarrow>
          (\<exists>f. KnownChecks k = Some f \<and>
             list_all2 (decoded Marshal Unmarshal f) blocks
               (Checks_index
                 (snd (Checks_UnmarshalYAML ks Marshal Unmarshal KnownChecks (Inr encoded) c)) k)))) \<and>
    ((\<forall>k\<in>dom encoded. \<exists>f. KnownChecks k = Some f \<and>
        (\<forall>b\<in>set (the (encoded k)). \<exists>check. decoded Marshal Unmarshal f b check)) \<longrightarrow>
       fst (Checks_UnmarshalYAML ks Marshal Unmarshal KnownChecks (Inr encoded) c) = None) \<and>
    (ks = before @ unknown # after \<and> KnownChecks unknown = None \<and>
     (\<forall>k\<in>set before. \<exists>f. KnownChecks k = Some f \<and>
        (\<forall>b\<in>set (the (encoded k)). \<exists>check. decoded Marshal Unmarshal f b check)) \<longrightarrow>
       fst (Checks_UnmarshalYAML ks Marshal Unmarshal KnownChecks (Inr encoded) c) =
         Some (Errorf (''unknown check '' @ [CHR 0x22] @ unknown @ [CHR 0x22]))) \<and>
    (ks = before' @ known # after' \<and> KnownChecks known = Some checkFactory \<and>
     encoded known = Some (good @ bad # rest) \<and>
     (\<forall>k\<in>set before'. \<exists>f. KnownChecks k = Some f \<and>
        (\<forall>b\<in>set (the (encoded k)). \<exists>check. decoded Marshal Unmarshal f b check)) \<and>
     (\<forall>b\<in>set good. \<exists>check. decoded Marshal Unmarshal checkFactory b check) \<and>
     rejected Marshal Unmarshal checkFactory bad err \<longrightarrow>
       fst (Checks_UnmarshalYAML ks Marshal Unmarshal KnownChecks (Inr encoded) c) = Some err)"
proof (intro conjI impI allI)
  let ?es = "go_range ks encoded"
  let ?R = "Checks_UnmarshalYAML ks Marshal Unmarshal KnownChecks (Inr encoded) c"
  have R: "?R = UnmarshalYAML_types Marshal Unmarshal KnownChecks ?es Map.empty"
    by (simp add: Checks_UnmarshalYAML_def)
  have fine: "\<forall>(k, v)\<in>set (go_range ks' encoded). \<exists>f. KnownChecks k = Some f \<and>
      (\<forall>b\<in>set v. \<exists>check. decoded Marshal Unmarshal f b check)"
    if "\<forall>k\<in>set ks'. \<exists>f. KnownChecks k = Some f \<and>
        (\<forall>b\<in>set (the (encoded k)). \<exists>check. decoded Marshal Unmarshal f b check)" for ks'
  proof (clarify)
    fix k v assume "(k, v) \<in> set (go_range ks' encoded)"
    then have "k \<in> set ks'" "encoded k = Some v" by (auto dest: go_range_entries)
    with that show "\<exists>f. KnownChecks k = Some f \<and>
        (\<forall>b\<in>set v. \<exists>check. decoded Marshal Unmarshal f b check)"
      by force
  qed
  from assms have dom: "set ks = dom encoded" by (simp add: range_order_def)
  {
    assume "encoded name = Some bs \<and> KnownChecks name = None"
    then have "(name, bs) \<in> set ?es" and "KnownChecks name = None"
      using assms by (simp_all add: go_range_set)
    then show "fst ?R \<noteq> None"
      unfolding R by (rule types_fails)
  }
  {
    assume a: "encoded name = Some bs \<and> KnownChecks name = None \<and>
     (\<forall>k\<in>dom encoded. k \<noteq> name \<longrightarrow>
        (\<exists>f. KnownChecks k = Some f \<and>
           (\<forall>b\<in>set (the (encoded k)). \<exists>check. decoded Marshal Unmarshal f b check)))"
    then have i: "(name, bs) \<in> set ?es" and n: "KnownChecks name = None"
      using assms by (simp_all add: go_range_set)
    have o: "\<forall>(k, v)\<in>set ?es. k \<noteq> name \<longrightarrow>
      (\<exists>f. KnownChecks k = Some f \<and> (\<forall>b\<in>set v. \<exists>check. decoded Marshal Unmarshal f b check))"
    proof (clarify)
      fix k v assume "(k, v) \<in> set ?es" "k \<noteq> name"
      then have "encoded k = Some v" using assms by (simp add: go_range_set)
      with a \<open>k \<noteq> name\<close> show "\<exists>f. KnownChecks k = Some f \<and>
        (\<forall>b\<in>set v. \<exists>check. decoded Marshal Unmarshal f b check)"
        by force
    qed
    from types_names [OF i n o]
    show "fst ?R = Some (Errorf (''unknown check '' @ [CHR 0x22] @ name @ [CHR 0x22]))"
      unfolding R by (simp add: quoted_def)
  }
  {
    fix k blocks
    assume ok: "fst ?R = None" and e: "encoded k = Some blocks"
    then have t: "UnmarshalYAML_types Marshal Unmarshal KnownChecks ?es Map.empty = (None, snd ?R)"
      unfolding R by (simp add: prod_eq_iff)
    from e assms have i: "(k, blocks) \<in> set ?es" by (simp add: go_range_set)
    from types_result [OF t go_range_distinct [OF assms]] i
    obtain f checks where "KnownChecks k = Some f"
      "list_all2 (decoded Marshal Unmarshal f) blocks checks"
      "Checks_index (snd ?R) k = Checks_index Map.empty k @ checks"
      by blast
    then show "\<exists>f. KnownChecks k = Some f \<and>
      list_all2 (decoded Marshal Unmarshal f) blocks (Checks_index (snd ?R) k)"
      by (simp add: Checks_index_def)
  }
  {
    assume "\<forall>k\<in>dom encoded. \<exists>f. KnownChecks k = Some f \<and>
        (\<forall>b\<in>set (the (encoded k)). \<exists>check. decoded Marshal Unmarshal f b check)"
    then have "\<forall>k\<in>set ks. \<exists>f. KnownChecks k = Some f \<and>
        (\<forall>b\<in>set (the (encoded k)). \<exists>check. decoded Marshal Unmarshal f b check)"
      by (simp add: dom)
    from types_ok [OF fine [OF this]] show "fst ?R = None"
      unfolding R .
  }
  {
    assume a: "ks = before @ unknown # after \<and> KnownChecks unknown = None \<and>
     (\<forall>k\<in>set before. \<exists>f. KnownChecks k = Some f \<and>
        (\<forall>b\<in>set (the (encoded k)). \<exists>check. decoded Marshal Unmarshal f b check))"
    then have "unknown \<in> dom encoded" using dom by auto
    then obtain v where v: "encoded unknown = Some v" by blast
    have es: "?es = go_range before encoded @ (unknown, v) # go_range after encoded"
      using a v by (simp add: go_range_append go_range_Cons)
    from a have b: "\<forall>k\<in>set before. \<exists>f. KnownChecks k = Some f \<and>
        (\<forall>b\<in>set (the (encoded k)). \<exists>check. decoded Marshal Unmarshal f b check)"
      by blast
    from a have n: "KnownChecks unknown = None" by blast
    from types_first_unknown [OF fine [OF b] n]
    show "fst ?R = Some (Errorf (''unknown check '' @ [CHR 0x22] @ unknown @ [CHR 0x22]))"
      unfolding R es by (simp add: quoted_def)
  }
  {
    assume a: "ks = before' @ known # after' \<and> KnownChecks known = Some checkFactory \<and>
     encoded known = Some (good @ bad # rest) \<and>
     (\<forall>k\<in>set before'. \<exists>f. KnownChecks k = Some f \<and>
        (\<forall>b\<in>set (the (encoded k)). \<exists>check. decoded Marshal Unmarshal f b check)) \<and>
     (\<forall>b\<in>set good. \<exists>check. decoded Marshal Unmarshal checkFactory b check) \<and>
     rejected Marshal Unmarshal checkFactory bad err"
    then have es: "?es = go_range before' encoded @ (known, good @ bad # rest)
        # go_range after' encoded"
      by (simp add: go_range_append go_range_Cons)
    from a have b: "\<forall>k\<in>set before'. \<exists>f. KnownChecks k = Some f \<and>
        (\<forall>b\<in>set (the (encoded k)). \<exists>check. decoded Marshal Unmarshal f b check)"
      by blast
    from a have k: "KnownChecks known = Some checkFactory"
      and g: "\<forall>b\<in>set good. \<exists>check. decoded Marshal Unmarshal checkFactory b check"
      and r: "rejected Marshal Unmarshal checkFactory bad err"
      by blast+
    from types_first_rejected [OF fine [OF b] k g r]
    show "fst ?R = Some err"
      unfolding R es .
  }
qed


lemma example_decoded:
  "decoded Inr example_Unmarshal f ''{}'' check \<longleftrightarrow> check = f ()"
  by (auto simp: decoded_def example_Unmarshal_def)

lemma example_decodes:
  "\<exists>check. decoded Inr example_Unmarshal f ''{}'' check"
  by (simp add: example_decoded)

lemma example_rejected:
  "rejected Inr example_Unmarshal f ''extra_args: 5'' (External ''yaml: unmarshal errors'')"
  by (simp add: rejected_def example_Unmarshal_def)

text \<open>
  C7 at a block with one unregistered name, at a block that decodes into two
  \<^verbatim>\<open>gofmt\<close> instances, at a block whose first entry \<^verbatim>\<open>yaml.Unmarshal\<close> rejects, and
  at a block with two unregistered names.
\<close>

theorem Checks_UnmarshalYAML_decode_witness:
  "range_order [''gofmt'', ''nope''] [''gofmt'' \<mapsto> [''{}''], ''nope'' \<mapsto> [''{}'']] \<and>
   example_KnownChecks ''nope'' = None \<and>
   fst (Checks_UnmarshalYAML [''gofmt'', ''nope''] Inr example_Unmarshal example_KnownChecks
     (Inr [''gofmt'' \<mapsto> [''{}''], ''nope'' \<mapsto> [''{}'']]) Map.empty) =
     Some (Errorf (''unknown check '' @ [CHR 0x22] @ ''nope'' @ [CHR 0x22])) \<and>
   range_order [''gofmt''] [''gofmt'' \<mapsto> [''{}'', ''{}'']] \<and>
   fst (Checks_UnmarshalYAML [''gofmt''] Inr example_Unmarshal example_KnownChecks
     (Inr [''gofmt'' \<mapsto> [''{}'', ''{}'']]) Map.empty) = None \<and>
   Checks_index (snd (Checks_UnmarshalYAML [''gofmt''] Inr example_Unmarshal example_KnownChecks
     (Inr [''gofmt'' \<mapsto> [''{}'', ''{}'']]) Map.empty)) ''gofmt'' = [gofmt, gofmt] \<and>
   range_order [''build'', ''nope''] [''build'' \<mapsto> [''extra_args: 5''], ''nope'' \<mapsto> [''{}'']] \<and>
   fst (Checks_UnmarshalYAML [''build'', ''nope''] Inr example_Unmarshal example_KnownChecks
     (Inr [''build'' \<mapsto> [''extra_args: 5''], ''nope'' \<mapsto> [''{}'']]) Map.empty) =
     Some (External ''yaml: unmarshal errors'') \<and>
   range_order [''gofmt'', ''other'', ''nope'']
     [''gofmt'' \<mapsto> [''{}''], ''nope'' \<mapsto> [''{}''], ''other'' \<mapsto> []] \<and>
   fst (Checks_UnmarshalYAML [''gofmt'', ''other'', ''nope''] Inr example_Unmarshal
     example_KnownChecks
     (Inr [''gofmt'' \<mapsto> [''{}''], ''nope'' \<mapsto> [''{}''], ''other'' \<mapsto> []]) Map.empty) =
     Some (Errorf (''unknown check '' @ [CHR 0x22] @ ''other'' @ [CHR 0x22]))"
proof -
  let ?e1 = "[''gofmt'' \<mapsto> [''{}''], ''nope'' \<mapsto> [''{}'']] :: string \<rightharpoonup> string list"
  let ?e2 = "[''gofmt'' \<mapsto> [''{}'', ''{}'']] :: string \<rightharpoonup> string list"
  let ?e3 = "[''build'' \<mapsto> [''extra_args: 5''], ''nope'' \<mapsto> [''{}'']] :: string \<rightharpoonup> string list"
  let ?e4 = "[''gofmt'' \<mapsto> [''{}''], ''nope'' \<mapsto> [''{}''], ''other'' \<mapsto> []]
    :: string \<rightharpoonup> string list"
  let ?R2 = "Checks_UnmarshalYAML [''gofmt''] Inr example_Unmarshal example_KnownChecks
     (Inr ?e2) Map.empty"
  have r1: "range_order [''gofmt'', ''nope''] ?e1"
    by (auto simp: range_order_def)
  have r2: "range_order [''gofmt''] ?e2"
    by (auto simp: range_order_def)
  have r3: "range_order [''build'', ''nope''] ?e3"
    by (auto simp: range_order_def)
  have n: "example_KnownChecks ''nope'' = None"
    by (simp add: example_KnownChecks_def)
  have h: "?e1 ''nope'' = Some [''{}''] \<and> example_KnownChecks ''nope'' = None \<and>
     (\<forall>k\<in>dom ?e1. k \<noteq> ''nope'' \<longrightarrow>
        (\<exists>f. example_KnownChecks k = Some f \<and>
           (\<forall>b\<in>set (the (?e1 k)). \<exists>check. decoded Inr example_Unmarshal f b check)))"
    by (simp add: example_KnownChecks_def example_decodes)
  note t1 = Checks_UnmarshalYAML_decode [OF r1, where name = "''nope''" and bs = "[''{}'']"
      and KnownChecks = example_KnownChecks and Marshal = Inr and Unmarshal = example_Unmarshal
      and c = Map.empty]
  note named = t1 [THEN conjunct2, THEN conjunct1, THEN mp, OF h]
  have r4: "range_order [''gofmt'', ''other'', ''nope'']
      [''gofmt'' \<mapsto> [''{}''], ''nope'' \<mapsto> [''{}''], ''other'' \<mapsto> []]"
    by (auto simp: range_order_def)
  have h5: "[''gofmt'', ''other'', ''nope''] = [''gofmt''] @ ''other'' # [''nope''] \<and>
     example_KnownChecks ''other'' = None \<and>
     (\<forall>k\<in>set [''gofmt'']. \<exists>f. example_KnownChecks k = Some f \<and>
        (\<forall>b\<in>set (the (?e4 k)). \<exists>check. decoded Inr example_Unmarshal f b check))"
    by (simp add: example_KnownChecks_def example_decodes)
  note t4 = Checks_UnmarshalYAML_decode [OF r4, where KnownChecks = example_KnownChecks
      and Marshal = Inr and Unmarshal = example_Unmarshal and c = Map.empty
      and before = "[''gofmt'']" and unknown = "''other''" and after = "[''nope'']"]
  note first = t4 [THEN conjunct2, THEN conjunct2, THEN conjunct2, THEN conjunct2,
      THEN conjunct1, THEN mp, OF h5]
  have h4: "\<forall>k\<in>dom ?e2. \<exists>f. example_KnownChecks k = Some f \<and>
        (\<forall>b\<in>set (the (?e2 k)). \<exists>check. decoded Inr example_Unmarshal f b check)"
    by (simp add: example_KnownChecks_def example_decodes)
  note t2 = Checks_UnmarshalYAML_decode [OF r2, where KnownChecks = example_KnownChecks
      and Marshal = Inr and Unmarshal = example_Unmarshal and c = Map.empty]
  note ok = t2 [THEN conjunct2, THEN conjunct2, THEN conjunct2, THEN conjunct1, THEN mp, OF h4]
  from t2 [THEN conjunct2, THEN conjunct2, THEN conjunct1, THEN mp, OF ok]
  have "\<exists>f. example_KnownChecks ''gofmt'' = Some f \<and>
    list_all2 (decoded Inr example_Unmarshal f) [''{}'', ''{}''] (Checks_index (snd ?R2) ''gofmt'')"
    by simp
  then have "list_all2 (decoded Inr example_Unmarshal (\<lambda>_. gofmt)) [''{}'', ''{}'']
      (Checks_index (snd ?R2) ''gofmt'')"
    by (simp add: example_KnownChecks_def)
  then have res: "Checks_index (snd ?R2) ''gofmt'' = [gofmt, gofmt]"
    by (simp add: list_all2_Cons1 example_decoded)
  have h6: "[''build'', ''nope''] = [] @ ''build'' # [''nope''] \<and>
     example_KnownChecks ''build'' = Some (\<lambda>_. build []) \<and>
     ?e3 ''build'' = Some ([] @ ''extra_args: 5'' # []) \<and>
     (\<forall>k\<in>set []. \<exists>f. example_KnownChecks k = Some f \<and>
        (\<forall>b\<in>set (the (?e3 k)). \<exists>check. decoded Inr example_Unmarshal f b check)) \<and>
     (\<forall>b\<in>set []. \<exists>check. decoded Inr example_Unmarshal (\<lambda>_. build []) b check) \<and>
     rejected Inr example_Unmarshal (\<lambda>_. build []) ''extra_args: 5''
       (External ''yaml: unmarshal errors'')"
    by (simp add: example_KnownChecks_def example_rejected)
  note t3 = Checks_UnmarshalYAML_decode [OF r3, where KnownChecks = example_KnownChecks
      and Marshal = Inr and Unmarshal = example_Unmarshal and c = Map.empty
      and before' = "[]" and known = "''build''" and after' = "[''nope'']"
      and checkFactory = "\<lambda>_. build []" and good = "[]" and bad = "''extra_args: 5''"
      and rest = "[]" and err = "External ''yaml: unmarshal errors''"]
  note yaml = t3 [THEN conjunct2, THEN conjunct2, THEN conjunct2, THEN conjunct2,
      THEN conjunct2, THEN mp, OF h6]
  show ?thesis by (intro conjI r1 n named r2 ok res r3 yaml r4 first)
qed

text \<open>
  C7 as it is written fails: the block holds the unregistered name \<^verbatim>\<open>nope\<close>, but the
  runtime ranges over \<^verbatim>\<open>build\<close> first, whose block \<^verbatim>\<open>yaml.Unmarshal\<close> rejects; the
  error returned is the one of \<^verbatim>\<open>yaml\<close> and names no check type.
\<close>

theorem Checks_UnmarshalYAML_counterexample:
  "range_order [''build'', ''nope''] [''build'' \<mapsto> [''extra_args: 5''], ''nope'' \<mapsto> [''{}'']] \<and>
   [''build'' \<mapsto> [''extra_args: 5''], ''nope'' \<mapsto> [''{}'']] ''nope'' = Some [''{}''] \<and>
   example_KnownChecks ''nope'' = None \<and>
   fst (Checks_UnmarshalYAML [''build'', ''nope''] Inr example_Unmarshal example_KnownChecks
     (Inr [''build'' \<mapsto> [''extra_args: 5''], ''nope'' \<mapsto> [''{}'']]) Map.empty) =
     Some (External ''yaml: unmarshal errors'') \<and>
   fst (Checks_UnmarshalYAML [''build'', ''nope''] Inr example_Unmarshal example_KnownChecks
     (Inr [''build'' \<mapsto> [''extra_args: 5''], ''nope'' \<mapsto> [''{}'']]) Map.empty) \<noteq>
     Some (Errorf (''unknown check '' @ [CHR 0x22] @ ''nope'' @ [CHR 0x22]))"
proof -
  let ?e = "[''build'' \<mapsto> [''extra_args: 5''], ''nope'' \<mapsto> [''{}'']] :: string \<rightharpoonup> string list"
  have r: "range_order [''build'', ''nope''] ?e"
    by (auto simp: range_order_def)
  have v: "fst (Checks_UnmarshalYAML [''build'', ''nope''] Inr example_Unmarshal
      example_KnownChecks (Inr ?e) Map.empty) = Some (External ''yaml: unmarshal errors'')"
    by (simp add: Checks_UnmarshalYAML_def go_range_def example_KnownChecks_def
        example_Unmarshal_def)
  show ?thesis
    unfolding v using r by (simp add: example_KnownChecks_def)
qed

section \<open>Properties of the command\<close>

subsection \<open>The channel\<close>

text \<open>
  A step moves one value from a goroutine into the buffer. So \<^verbatim>\<open>wg.Wait()\<close> can only
  return with every value in the buffer, which takes a capacity of at least the number
  of values sent; and when the capacity is that large no interleaving blocks.
\<close>

lemma mset_concat_update:
  assumes "i < length gs" "gs ! i = v # rest"
  shows "add_mset v (mset (concat (gs[i := rest]))) = mset (concat gs)"
proof -
  have "gs = take i gs @ (v # rest) # drop (Suc i) gs"
    using assms id_take_nth_drop [of i gs] by simp
  then have "mset (concat gs) = mset (concat (take i gs @ (v # rest) # drop (Suc i) gs))"
    by simp
  moreover have "gs[i := rest] = take i gs @ rest # drop (Suc i) gs"
    using assms by (simp add: upd_conv_take_nth_drop)
  ultimately show ?thesis by simp
qed

lemma chan_step_mset:
  "chan_step n (buf, gs) (buf', gs') \<Longrightarrow>
   mset buf' + mset (concat gs') = mset buf + mset (concat gs) \<and> length buf' \<le> n \<and>
   length gs' = length gs"
  by (induction "(buf, gs)" "(buf', gs')" rule: chan_step.induct)
     (auto simp: mset_concat_update)

lemma chan_steps_mset:
  "(chan_step n)\<^sup>*\<^sup>* (buf, gs) (buf', gs') \<Longrightarrow> length buf \<le> n \<Longrightarrow>
   mset buf' + mset (concat gs') = mset buf + mset (concat gs) \<and> length buf' \<le> n \<and>
   length gs' = length gs"
proof (induction rule: rtranclp_induct2)
  case refl
  then show ?case by simp
next
  case (step b g b' g')
  from chan_step_mset [OF step.hyps(2)] step.IH [OF step.prems] show ?case by simp
qed

lemma Wait_returns_all:
  assumes "Wait_returns n gs buf"
  shows "mset buf = mset (concat gs) \<and> length (concat gs) \<le> n"
proof -
  from assms obtain gs' where s: "(chan_step n)\<^sup>*\<^sup>* ([], gs) (buf, gs')" and d: "concat gs' = []"
    by (auto simp: Wait_returns_def)
  from chan_steps_mset [OF s] d have m: "mset buf = mset (concat gs)" and l: "length buf \<le> n"
    by simp_all
  from m have "length buf = length (concat gs)" by (rule mset_eq_length)
  with m l show ?thesis by simp
qed

lemma Wait_blocks:
  "n < length (concat gs) \<Longrightarrow> \<not> (\<exists>buf. Wait_returns n gs buf)"
  using Wait_returns_all by fastforce


lemma chan_step_decreases:
  assumes "chan_step n (buf, gs) (buf', gs')"
  shows "length buf' = Suc (length buf) \<and> length (concat gs) = Suc (length (concat gs'))"
proof -
  from assms have b: "length buf' = Suc (length buf)"
    by (cases rule: chan_step.cases) auto
  from chan_step_mset [OF assms]
  have "size (mset buf' + mset (concat gs')) = size (mset buf + mset (concat gs))"
    by simp
  then have "length buf' + length (concat gs') = length buf + length (concat gs)"
    by simp
  with b show ?thesis by simp
qed

lemma chan_progress:
  assumes "length buf + length (concat gs) \<le> n" "concat gs \<noteq> []"
  shows "\<exists>buf' gs'. chan_step n (buf, gs) (buf', gs')"
proof -
  from assms(2) obtain g where "g \<in> set gs" "g \<noteq> []" by auto
  then obtain i v rest where i: "i < length gs" "gs ! i = v # rest"
    by (metis in_set_conv_nth neq_Nil_conv)
  from assms have "length buf < n"
    by (cases "concat gs") simp_all
  with i show ?thesis by (blast intro: chan_step.send)
qed

lemma chan_completes:
  "length buf + length (concat gs) \<le> n \<Longrightarrow>
   \<exists>buf' gs'. (chan_step n)\<^sup>*\<^sup>* (buf, gs) (buf', gs') \<and> concat gs' = []"
proof (induction "length (concat gs)" arbitrary: buf gs)
  case 0
  then show ?case by auto
next
  case (Suc k)
  have ne: "concat gs \<noteq> []"
  proof
    assume "concat gs = []"
    then have "length (concat gs) = 0" by (simp only: list.size)
    with Suc.hyps(2) show False by simp
  qed
  from chan_progress [OF Suc.prems ne] obtain buf1 gs1 where
    s: "chan_step n (buf, gs) (buf1, gs1)" by blast
  from chan_step_decreases [OF s] Suc.hyps(2) Suc.prems have
    k: "k = length (concat gs1)" and l: "length buf1 + length (concat gs1) \<le> n"
    by auto
  from Suc.hyps(1) [OF k l] obtain buf' gs' where
    "(chan_step n)\<^sup>*\<^sup>* (buf1, gs1) (buf', gs')" "concat gs' = []" by blast
  with s show ?case by (blast intro: converse_rtranclp_into_rtranclp)
qed

lemma Wait_returns_iff:
  "(\<exists>buf. Wait_returns n gs buf) \<longleftrightarrow> length (concat gs) \<le> n"
proof
  assume "\<exists>buf. Wait_returns n gs buf"
  then show "length (concat gs) \<le> n" using Wait_returns_all by blast
next
  assume "length (concat gs) \<le> n"
  with chan_completes [of "[]" gs n] show "\<exists>buf. Wait_returns n gs buf"
    by (auto simp: Wait_returns_def)
qed


subsection \<open>run\<close>

lemma run_drain_eq:
  "run_drain errs err elapsed =
     (if errs = [] \<and> err = None then None else Some (ChecksFailed elapsed))"
  by (induction errs arbitrary: err) (auto split: option.splits)

lemma run_returns_result:
  assumes "run_returns GetName Run took enabledChecks mx elapsed res"
  shows "res = (if concat (map (run_goroutine GetName Run took mx) enabledChecks) = []
                then None else Some (ChecksFailed elapsed))"
proof -
  from assms obtain errs where
    w: "Wait_returns (length enabledChecks)
          (map (run_goroutine GetName Run took mx) enabledChecks) errs" and
    r: "res = run_drain errs None elapsed"
    by (auto simp: run_returns_def)
  from Wait_returns_all [OF w]
  have "mset errs = mset (concat (map (run_goroutine GetName Run took mx) enabledChecks))"
    by simp
  then have "errs = [] \<longleftrightarrow> concat (map (run_goroutine GetName Run took mx) enabledChecks) = []"
    by (metis mset_zero_iff)
  with r show ?thesis by (simp add: run_drain_eq)
qed

lemma run_returns_iff:
  "(\<exists>res. run_returns GetName Run took enabledChecks mx elapsed res) \<longleftrightarrow>
   length (concat (map (run_goroutine GetName Run took mx) enabledChecks)) \<le> length enabledChecks"
  using Wait_returns_iff [of "length enabledChecks"
      "map (run_goroutine GetName Run took mx) enabledChecks"]
  by (auto simp: run_returns_def)

text \<open>
  The comparison of \<open>run_goroutine\<close> is the one of the durations in nanoseconds as long
  as \<^verbatim>\<open>time.Duration(max)*time.Second\<close> does not overflow.
\<close>

lemma budget_no_overflow:
  fixes mx :: int
  assumes "0 \<le> mx" "mx \<le> 9223372036"
  shows "(word_of_int mx * Second <s duration) \<longleftrightarrow> mx * 1000000000 < sint duration"
proof -
  have w: "word_of_int mx * Second = (word_of_int (mx * 1000000000) :: 64 word)"
    by (simp add: Second_def)
  have "sint (word_of_int (mx * 1000000000) :: 64 word)
      = signed_take_bit (LENGTH(64) - 1) (mx * 1000000000)"
    by (rule sint_sbintrunc')
  also have "\<dots> = signed_take_bit 63 (mx * 1000000000)"
    by simp
  also have "\<dots> = mx * 1000000000"
    using assms by (intro signed_take_bit_int_eq_self) simp_all
  finally show ?thesis
    unfolding w by (simp only: word_sless_alt)
qed

text \<open>
  From 9223372037 seconds on the product wraps around to a negative duration, which
  every measured duration exceeds.
\<close>

lemma budget_overflow:
  "word_of_int 9223372037 * Second <s (0 :: 64 word)"
  by (simp add: Second_def word_sless_alt)

text \<open>
  C1 (the code breaks the claim). One enabled check, \<^verbatim>\<open>test\<close>, whose \<^verbatim>\<open>Run\<close> returns an
  error and whose measured duration of 6 seconds exceeds the maximal duration of 5
  seconds. Its goroutine has two errors to send on a channel of capacity 1, the number of
  enabled checks: the second send blocks, \<^verbatim>\<open>wg.Done()\<close> is never called and
  \<^verbatim>\<open>wg.Wait()\<close> never returns. \<^verbatim>\<open>run\<close> returns neither nil nor the aggregate error,
  although two failures were produced.
\<close>

theorem run_never_returns:
  "\<not> (\<exists>res. run_returns fst (\<lambda>check. fst (snd check)) (\<lambda>check. snd (snd check))
          [(''test'', Some (External ''exit status 1''), 6 * Second)] 5 elapsed res)"
  by (simp add: run_returns_iff run_goroutine_def callRun_def Second_def word_sless_alt)


subsection \<open>installPrereq\<close>

lemma dom_fold_urls:
  "dom (fold (\<lambda>url m. m(url \<mapsto> True)) c m) = dom m \<union> set c"
  by (induction c arbitrary: m) auto

lemma sort_range_order:
  fixes m :: "string \<rightharpoonup> 'v"
  assumes "range_order ks m"
  shows "sort (map fst (go_range ks m)) = sorted_list_of_set (dom m)"
proof -
  from assms have d: "distinct ks" and s: "set ks = dom m"
    by (simp_all add: range_order_def)
  have "sort (map fst (go_range ks m)) = sort ks"
    using s by (simp add: go_range_fst)
  also have "\<dots> = sorted_list_of_set (set ks)"
    using d by (simp add: sorted_list_of_set_sort_remdups distinct_remdups_id)
  finally show ?thesis by (simp add: s)
qed

lemma installPrereq_urls_sorted:
  assumes "range_order ks (fold (\<lambda>url m. m(url \<mapsto> True)) c Map.empty)"
  shows "installPrereq_urls ks c = sorted_list_of_set (set c)"
  using sort_range_order [OF assms] by (simp add: installPrereq_urls_def dom_fold_urls)

lemma installPrereq_goroutines_set:
  "set (concat (installPrereq_goroutines Capture GetPrerequisites enabledChecks)) =
     {URL p |p. p \<in> set (concat (map GetPrerequisites enabledChecks)) \<and> \<not> IsPresent Capture p}"
  by (auto simp: installPrereq_goroutines_def installPrereq_goroutine_def split: if_splits)

lemma installPrereq_returns_iff:
  "(\<exists>res. installPrereq_returns Capture capture GetPrerequisites ks enabledChecks res) \<longleftrightarrow>
   length (concat (installPrereq_goroutines Capture GetPrerequisites enabledChecks))
     \<le> length enabledChecks"
proof -
  have "(\<exists>res. installPrereq_returns Capture capture GetPrerequisites ks enabledChecks res) \<longleftrightarrow>
    (\<exists>c. Wait_returns (length enabledChecks)
       (installPrereq_goroutines Capture GetPrerequisites enabledChecks) c)"
    unfolding installPrereq_returns_def by blast
  then show ?thesis by (simp only: Wait_returns_iff)
qed

lemma installPrereq_returns_missing:
  assumes "Wait_returns (length enabledChecks)
     (installPrereq_goroutines Capture GetPrerequisites enabledChecks) c"
    and "range_order ks (fold (\<lambda>url m. m(url \<mapsto> True)) c Map.empty)"
  shows "installPrereq_urls ks c = sorted_list_of_set
     {URL p |p. p \<in> set (concat (map GetPrerequisites enabledChecks)) \<and> \<not> IsPresent Capture p}"
proof -
  from Wait_returns_all [OF assms(1)]
  have "set c = set (concat (installPrereq_goroutines Capture GetPrerequisites enabledChecks))"
    by (metis set_mset_mset)
  also have "\<dots> = {URL p |p. p \<in> set (concat (map GetPrerequisites enabledChecks)) \<and>
      \<not> IsPresent Capture p}"
    by (rule installPrereq_goroutines_set)
  finally show ?thesis
    by (simp only: installPrereq_urls_sorted [OF assms(2)])
qed

text \<open>
  When \<^verbatim>\<open>installPrereq\<close> returns, it has installed the sorted list, without
  duplicates, of the locators of exactly the prerequisites whose probe did not exit with
  the expected code.
\<close>

lemma installPrereq_returns_result:
  assumes "installPrereq_returns Capture capture GetPrerequisites ks enabledChecks res"
    and "distinct ks"
    and "set ks = {URL p |p. p \<in> set (concat (map GetPrerequisites enabledChecks)) \<and>
      \<not> IsPresent Capture p}"
  shows "res = installPrereq_get capture (sorted_list_of_set
     {URL p |p. p \<in> set (concat (map GetPrerequisites enabledChecks)) \<and> \<not> IsPresent Capture p})"
proof -
  from assms(1) obtain c where
    w: "Wait_returns (length enabledChecks)
          (installPrereq_goroutines Capture GetPrerequisites enabledChecks) c" and
    r: "res = installPrereq_get capture (installPrereq_urls ks c)"
    by (auto simp: installPrereq_returns_def)
  from Wait_returns_all [OF w]
  have "set c = set (concat (installPrereq_goroutines Capture GetPrerequisites enabledChecks))"
    by (metis set_mset_mset)
  also have "\<dots> = set ks"
    unfolding assms(3) by (rule installPrereq_goroutines_set)
  finally have "range_order ks (fold (\<lambda>url m. m(url \<mapsto> True)) c Map.empty)"
    using assms(2) by (simp add: range_order_def dom_fold_urls)
  from installPrereq_returns_missing [OF w this] r show ?thesis by simp
qed

text \<open>
  C8 (the code breaks the claim). One enabled check that declares two prerequisites,
  both with a probe that exits with 1 where 2 is expected. Each of the two goroutines
  sends a \<^verbatim>\<open>URL\<close> on a channel of capacity 1, the number of enabled checks: the second
  send blocks and \<^verbatim>\<open>wg.Wait()\<close> never returns. Neither prerequisite is reported missing.
\<close>

theorem installPrereq_never_returns:
  "\<not> (\<exists>res. installPrereq_returns (\<lambda>cmd. ([], 1, None)) capture (\<lambda>check. check) ks
      [[\<lparr>HelpCommand = [''errcheck'', ''-h''], ExpectedExitCode = 2,
          URL = ''github.com/kisielk/errcheck''\<rparr>,
        \<lparr>HelpCommand = [''golint'', ''-h''], ExpectedExitCode = 2,
          URL = ''github.com/golang/lint/golint''\<rparr>]] res)"
  by (subst installPrereq_returns_iff)
     (simp add: installPrereq_goroutines_def installPrereq_goroutine_def IsPresent_def)

text \<open>
  C9 (amended). With at least one missing locator, the installation hands \<^verbatim>\<open>go get\<close> with all
  the locators, without \<^verbatim>\<open>-u\<close>, to \<open>capture\<close> once. It runs the command a second
  time, with \<^verbatim>\<open>-u\<close>, if and only if the first run printed something or returned an
  error that is not nil (the exit code that \<open>capture\<close> also returns is discarded), and
  never a third time. When the second run prints something the installation fails with
  an error that carries that output; when it prints nothing the installation fails with
  the text of the error of the second run if that is not nil, and succeeds otherwise.
  When the first run prints nothing and returns no error there is no second run and the
  installation succeeds.
\<close>

theorem installPrereq_get_invocations:
  assumes "urls \<noteq> []"
    and "capture ([''go'', ''get''] @ urls) = (out, code, err)"
    and "capture ([''go'', ''get'', ''-u''] @ urls) = (out', code', err')"
  shows
    "fst (installPrereq_get capture urls) =
       (if out \<noteq> [] \<or> err \<noteq> None
        then [[''go'', ''get''] @ urls, [''go'', ''get'', ''-u''] @ urls]
        else [[''go'', ''get''] @ urls]) \<and>
     snd (installPrereq_get capture urls) =
       (if out \<noteq> [] \<or> err \<noteq> None
        then (if out' \<noteq> []
              then Some (Errorf (''prerequisites installation failed: '' @ out'))
              else (case err' of
                      Some e \<Rightarrow> Some (Errorf (''prerequisites installation failed: '' @ e))
                    | None \<Rightarrow> None))
        else None)"
  using assms by (simp add: installPrereq_get_def)



text \<open>C9 at three command lines: a retry that succeeds, a retry that fails, no retry.\<close>

theorem installPrereq_get_invocations_witness:
  "installPrereq_get example_capture [''golint''] =
     ([[''go'', ''get'', ''golint''], [''go'', ''get'', ''-u'', ''golint'']], None) \<and>
   installPrereq_get example_capture [''errcheck''] =
     ([[''go'', ''get'', ''errcheck''], [''go'', ''get'', ''-u'', ''errcheck'']],
      Some (Errorf (''prerequisites installation failed: '' @ ''cannot find package''))) \<and>
   installPrereq_get example_capture [''goimports''] =
     ([[''go'', ''get'', ''goimports'']], None)"
proof -
  have a: "installPrereq_get example_capture [''golint''] =
     ([[''go'', ''get'', ''golint''], [''go'', ''get'', ''-u'', ''golint'']], None)"
    using installPrereq_get_invocations [of "[''golint'']" example_capture
        "''unrecognized import path''" 1 None "[]" 0 None]
    by (simp add: example_capture_def prod_eq_iff)
  have b: "installPrereq_get example_capture [''errcheck''] =
     ([[''go'', ''get'', ''errcheck''], [''go'', ''get'', ''-u'', ''errcheck'']],
      Some (Errorf (''prerequisites installation failed: '' @ ''cannot find package'')))"
    using installPrereq_get_invocations [of "[''errcheck'']" example_capture
        "[]" 1 "Some ''exit status 1''" "''cannot find package''" 1 None]
    by (simp add: example_capture_def prod_eq_iff)
  have c: "installPrereq_get example_capture [''goimports''] =
     ([[''go'', ''get'', ''goimports'']], None)"
    using installPrereq_get_invocations [of "[''goimports'']" example_capture
        "[]" 0 None "[]" 0 None]
    by (simp add: example_capture_def prod_eq_iff)
  show ?thesis by (intro conjI a b c)
qed

text \<open>
  C9 as it is written fails: a \<^verbatim>\<open>go get\<close> that exits with code 1, prints nothing and
  returns a nil error is a non-zero result, but the exit code is bound to \<^verbatim>\<open>_\<close>: there
  is no second run and the installation succeeds.
\<close>

theorem installPrereq_get_counterexample:
  "silent_failure [''go'', ''get'', ''golint''] = ([], 1, None) \<and>
   fst (snd (silent_failure [''go'', ''get'', ''golint''])) \<noteq> 0 \<and>
   installPrereq_get silent_failure [''golint''] = ([[''go'', ''get'', ''golint'']], None)"
  by (simp add: installPrereq_get_def silent_failure_def)

end
